theory Spec2Isabelle
  imports Main
begin

section \<open>Strings\<close>

text \<open>
  JavaScript strings are modelled as \<open>string\<close> (a list of characters). The three string
  operations \<open>prometheus-metrics.service.ts\<close> uses are \<open>startsWith\<close>, \<open>replace\<close> with a
  string pattern (which replaces the first occurrence only, wherever it stands) and
  \<open>replace\<close> with the global pattern \<open>/\./g\<close> (which replaces every dot).
\<close>

definition startsWith :: "string \<Rightarrow> string \<Rightarrow> bool" where
  "startsWith s p = (take (length p) s = p)"

fun replaceFirst :: "string \<Rightarrow> string \<Rightarrow> string \<Rightarrow> string" where
  "replaceFirst pat rep [] = (if pat = [] then rep else [])"
| "replaceFirst pat rep (c # cs) =
     (if take (length pat) (c # cs) = pat then rep @ drop (length pat) (c # cs)
      else c # replaceFirst pat rep cs)"

definition replaceDots :: "string \<Rightarrow> string" where
  "replaceDots s = map (\<lambda>c. if c = CHR ''.'' then CHR ''_'' else c) s"

fun occursIn :: "string \<Rightarrow> string \<Rightarrow> bool" where
  "occursIn pat [] = (pat = [])"
| "occursIn pat (c # cs) = (take (length pat) (c # cs) = pat \<or> occursIn pat cs)"

definition isLetter :: "char \<Rightarrow> bool" where
  "isLetter c = (let n = (of_char c :: nat) in (65 \<le> n \<and> n \<le> 90) \<or> (97 \<le> n \<and> n \<le> 122))"

definition isDigit :: "char \<Rightarrow> bool" where
  "isDigit c = (let n = (of_char c :: nat) in 48 \<le> n \<and> n \<le> 57)"

function showNat :: "nat \<Rightarrow> string" where
  "showNat n =
     (if n < 10 then [''0123456789'' ! n]
      else showNat (n div 10) @ [''0123456789'' ! (n mod 10)])"
  by pat_completeness auto
termination
  by (relation "measure (\<lambda>n. n)") auto

declare showNat.simps [simp del]

section \<open>Events\<close>

text \<open>
  \<open>EventMessageTypes\<close> of \<open>@/eventbus\<close>: the fields \<open>toCounter\<close> and \<open>toLabels\<close> read.
  \<open>toLabels\<close> switches on \<open>__type\<close> (the field \<open>eventType\<close> here) with cases for
  audit, node and workflow messages; every other kind of message falls to the default
  and is \<open>Generic\<close> here. An absent payload field is \<open>None\<close>.
\<close>

datatype EventMessageTypeNames = Generic | Audit | Workflow | Node

record payload =
  credentialType :: "string option"
  workflowId :: "string option"
  nodeType :: "string option"

record event =
  eventType :: EventMessageTypeNames
  eventName :: string
  payload :: payload

record labelFlags =
  lblCredentialsType :: bool
  lblNodeType :: bool
  lblWorkflowId :: bool
  lblApiPath :: bool
  lblApiMethod :: bool
  lblApiStatusCode :: bool

type_synonym labels = "(string \<times> string) list"

definition orUnknown :: "string option \<Rightarrow> string" where
  "orUnknown v = (case v of None \<Rightarrow> ''unknown'' | Some x \<Rightarrow> x)"

text \<open>\<open>toLabels\<close> (lines 186 to 220); \<open>orUnknown v\<close> is \<open>v ?? 'unknown'\<close>.\<close>

definition toLabels :: "labelFlags \<Rightarrow> event \<Rightarrow> labels" where
  "toLabels fl ev =
     (case eventType ev of
        Audit \<Rightarrow>
          if startsWith (eventName ev) ''n8n.audit.user.credentials'' then
            (if lblCredentialsType fl
             then [(''credential_type'', replaceDots (orUnknown (credentialType (payload ev))))]
             else [])
          else if startsWith (eventName ev) ''n8n.audit.workflow'' then
            (if lblWorkflowId fl
             then [(''workflow_id'', orUnknown (workflowId (payload ev)))]
             else [])
          else []
      | Node \<Rightarrow>
          if lblNodeType fl
          then [(''node_type'',
                 replaceDots (replaceFirst ''n8n-nodes-'' [] (orUnknown (nodeType (payload ev)))))]
          else []
      | Workflow \<Rightarrow>
          if lblWorkflowId fl
          then [(''workflow_id'', orUnknown (workflowId (payload ev)))]
          else []
      | Generic \<Rightarrow> [])"

text \<open>The metric name \<open>toCounter\<close> derives from an event name (line 155).\<close>

definition metricName :: "string \<Rightarrow> string \<Rightarrow> string" where
  "metricName pfx en = pfx @ replaceDots (replaceFirst ''n8n.'' [] en) @ ''_total''"

subsection \<open>The specification's wording of the two derivations\<close>

text \<open>
  The specification sanitizes the credential type to \<open>[A-Za-z0-9_]\<close> and strips the vendor
  token as a prefix. These two definitions follow its words and are compared with the
  code's \<open>toLabels\<close> and \<open>metricName\<close> below.
\<close>

definition sanitize_spec :: "string \<Rightarrow> string" where
  "sanitize_spec s =
     map (\<lambda>c. if isLetter c \<or> isDigit c \<or> c = CHR ''_'' then c else CHR ''_'') s"

definition deriveName_spec :: "string \<Rightarrow> string \<Rightarrow> string" where
  "deriveName_spec pfx en =
     pfx @ replaceDots (if startsWith en ''n8n.'' then drop 4 en else en) @ ''_total''"


section \<open>Values, errors and the object store\<close>

text \<open>
  A thrown exception is a value: every operation returns a \<open>result\<close> together with the
  state it leaves, because an exception does not undo the mutations made before it.
\<close>

datatype error = Error string | TypeError string

datatype 'a result = Return 'a | Throw error

text \<open>
  A prom-client metric object. Counters and gauges are objects shared by reference: the
  registry holds them, and so does the \<open>counters\<close> field of the service. They live in a
  store (\<open>heap\<close>), addressed by their index; \<open>hashMap\<close> maps a label set to its value.
  \<open>Collected\<close> is the type of the default process metrics, which prom-client fills in
  when a snapshot is taken.
\<close>

datatype metricType = Counter | Gauge | Collected

record metric =
  mType :: metricType
  mName :: string
  mHelp :: string
  mLabelNames :: "string list"
  hashMap :: "(labels \<times> nat) list"

text \<open>
  What reading \<open>this.counters[key]\<close> can give: \<open>undefined\<close>, \<open>null\<close>, a counter, or a
  member inherited from \<open>Object.prototype\<close> (\<open>counters\<close> is created by the literal \<open>{}\<close>).
\<close>

datatype jsValue = Undefined | Null | CounterRef nat | PrototypeMember

definition truthy :: "jsValue \<Rightarrow> bool" where
  "truthy v = (case v of Undefined \<Rightarrow> False | Null \<Rightarrow> False | _ \<Rightarrow> True)"

definition objectPrototypeKeys :: "string list" where
  "objectPrototypeKeys =
     [''constructor'', ''__defineGetter__'', ''__defineSetter__'', ''hasOwnProperty'',
      ''__lookupGetter__'', ''__lookupSetter__'', ''isPrototypeOf'', ''propertyIsEnumerable'',
      ''toString'', ''valueOf'', ''__proto__'', ''toLocaleString'']"

text \<open>
  The own properties of \<open>counters\<close> are an association list in insertion order; the value
  \<open>None\<close> is \<open>null\<close>. The service only ever assigns keys that are not inherited ones
  (the guard of \<open>toCounter\<close> is false for them).
\<close>

definition getProp :: "(string \<times> nat option) list \<Rightarrow> string \<Rightarrow> jsValue" where
  "getProp obj k =
     (case map_of obj k of
        Some (Some r) \<Rightarrow> CounterRef r
      | Some None \<Rightarrow> Null
      | None \<Rightarrow> if k \<in> set objectPrototypeKeys then PrototypeMember else Undefined)"

fun setProp :: "(string \<times> nat option) list \<Rightarrow> string \<Rightarrow> nat option \<Rightarrow> (string \<times> nat option) list" where
  "setProp [] k v = [(k, v)]"
| "setProp ((k', v') # ps) k v =
     (if k' = k then (k, v) # ps else (k', v') # setProp ps k v)"

section \<open>The service and its collaborators\<close>

datatype MetricCategory = Default | Api | Cache | Logs

record SemVer =
  version :: string
  major :: nat
  minor :: nat
  patch :: nat

text \<open>
  The listeners the service binds: the three closures of \<open>initCacheMetrics\<close> (lines 140,
  144 and 148) and the closure of \<open>initEventBusMetrics\<close> (lines 179 to 183).
\<close>

datatype cacheListener = IncCacheHitsTotal | IncCacheMissesTotal | IncCacheUpdatesTotal

datatype busListener = CountEvent

record promBundleOpts =
  autoregister :: bool
  includeUp :: bool
  includePath :: bool
  includeMethod :: bool
  includeStatusCode :: bool

record expressApp =
  middleware :: "(string list \<times> promBundleOpts) list"
  getRoutes :: "string list"

text \<open>
  The state: the fields of \<open>PrometheusMetricsService\<close> (\<open>counters\<close>, \<open>prefix\<close>,
  \<open>includes.metrics\<close>, \<open>includes.labels\<close>), the objects it shares with its collaborators
  (the store, \<open>promClient.register\<close>, the listeners of \<open>cacheService\<close> and \<open>eventBus\<close>, the
  express application) and \<open>n8nVersion\<close>, the value of
  \<open>semverParse(N8N_VERSION ?? '0.0.0')\<close> (\<open>None\<close> when the version does not parse).

  Modelled from the spec: prom-client, express-prom-bundle and the event emitters are not
  part of the repository. The registry follows section 4.4 of the specification
  (registration fails on a name already registered, \<open>clear\<close> drops every metric); the
  default process metrics are registered in it under their own names. The request
  histogram of express-prom-bundle is not represented: its name,
  \<open>http_request_duration_seconds\<close>, carries no prefix and is no name the service or the
  default collectors register.
\<close>

record state =
  prefix :: string
  n8nVersion :: "SemVer option"
  includesMetrics :: "MetricCategory \<Rightarrow> bool"
  includesLabels :: labelFlags
  counters :: "(string \<times> nat option) list"
  heap :: "metric list"
  registerMetrics :: "(string \<times> nat) list"
  cacheServiceListeners :: "(string \<times> cacheListener) list"
  eventBusListeners :: "(string \<times> busListener) list"
  app :: expressApp

type_synonym action = "state \<Rightarrow> unit result \<times> state"

text \<open>Statements in sequence: an exception skips the statements after it.\<close>

fun steps :: "action list \<Rightarrow> action" where
  "steps [] s = (Return (), s)"
| "steps (a # as) s =
     (case a s of (Return _, s') \<Rightarrow> steps as s' | (Throw e, s') \<Rightarrow> (Throw e, s'))"

subsection \<open>prom-client\<close>

text \<open>
  Modelled from the spec: \<open>validateMetricName\<close> is the identifier rule of prom-client,
  \<open>/^[a-zA-Z_:][a-zA-Z0-9_:]*$/\<close>; a label name follows \<open>/^[a-zA-Z_][a-zA-Z0-9_]*$/\<close>.
\<close>

definition validateMetricName :: "string \<Rightarrow> bool" where
  "validateMetricName nm =
     (case nm of
        [] \<Rightarrow> False
      | c # cs \<Rightarrow>
          (isLetter c \<or> c = CHR ''_'' \<or> c = CHR '':'') \<and>
          list_all (\<lambda>d. isLetter d \<or> isDigit d \<or> d = CHR ''_'' \<or> d = CHR '':'') cs)"

definition validateLabelName :: "string \<Rightarrow> bool" where
  "validateLabelName nm =
     (case nm of
        [] \<Rightarrow> False
      | c # cs \<Rightarrow>
          (isLetter c \<or> c = CHR ''_'') \<and>
          list_all (\<lambda>d. isLetter d \<or> isDigit d \<or> d = CHR ''_'') cs)"

text \<open>
  Modelled from the spec: the constructor of a counter or gauge. It checks the help text,
  the name and the label names, creates the object with an empty \<open>hashMap\<close> and registers
  it in \<open>promClient.register\<close>, which refuses a name it already holds. The result is the
  reference to the new object.
\<close>

definition newMetric :: "metricType \<Rightarrow> string \<Rightarrow> string \<Rightarrow> string list \<Rightarrow> state \<Rightarrow> nat result \<times> state" where
  "newMetric ty nm hp lns s =
     (if hp = [] then (Throw (Error ''Missing mandatory help parameter''), s)
      else if nm = [] then (Throw (Error ''Missing mandatory name parameter''), s)
      else if \<not> validateMetricName nm then (Throw (Error ''Invalid metric name''), s)
      else if \<not> list_all validateLabelName lns then (Throw (Error ''Invalid label name''), s)
      else if nm \<in> set (map fst (registerMetrics s)) then
        (Throw (Error (''A metric with the name '' @ nm @ '' has already been registered.'')), s)
      else
        (Return (length (heap s)),
         s\<lparr>heap := heap s @ [\<lparr>mType = ty, mName = nm, mHelp = hp, mLabelNames = lns, hashMap = []\<rparr>],
           registerMetrics := registerMetrics s @ [(nm, length (heap s))]\<rparr>))"

text \<open>
  Modelled from the spec: \<open>inc\<close> and \<open>set\<close> refuse a label that is not among the label
  names of the metric; \<open>inc\<close> adds to the value stored for the label set (creating it),
  \<open>set\<close> overwrites it. A reference always denotes an object of the store; for an index
  outside the store the model leaves the state as it is.
\<close>

fun addValue :: "(labels \<times> nat) list \<Rightarrow> labels \<Rightarrow> nat \<Rightarrow> (labels \<times> nat) list" where
  "addValue [] ls v = [(ls, v)]"
| "addValue ((ls', v') # hm) ls v =
     (if ls' = ls then (ls, v' + v) # hm else (ls', v') # addValue hm ls v)"

fun setValue :: "(labels \<times> nat) list \<Rightarrow> labels \<Rightarrow> nat \<Rightarrow> (labels \<times> nat) list" where
  "setValue [] ls v = [(ls, v)]"
| "setValue ((ls', v') # hm) ls v =
     (if ls' = ls then (ls, v) # hm else (ls', v') # setValue hm ls v)"

definition validateLabel :: "string list \<Rightarrow> labels \<Rightarrow> bool" where
  "validateLabel lns ls = list_all (\<lambda>k. k \<in> set lns) (map fst ls)"

definition inc :: "nat \<Rightarrow> labels \<Rightarrow> nat \<Rightarrow> action" where
  "inc r ls v s =
     (if r < length (heap s) then
        (if \<not> validateLabel (mLabelNames (heap s ! r)) ls
         then (Throw (Error ''Added label is not included in initial labelset''), s)
         else (Return (),
               s\<lparr>heap := (heap s)[r := (heap s ! r)\<lparr>hashMap := addValue (hashMap (heap s ! r)) ls v\<rparr>]\<rparr>))
      else (Return (), s))"

definition gaugeSet :: "nat \<Rightarrow> labels \<Rightarrow> nat \<Rightarrow> action" where
  "gaugeSet r ls v s =
     (if r < length (heap s) then
        (if \<not> validateLabel (mLabelNames (heap s ! r)) ls
         then (Throw (Error ''Added label is not included in initial labelset''), s)
         else (Return (),
               s\<lparr>heap := (heap s)[r := (heap s ! r)\<lparr>hashMap := setValue (hashMap (heap s ! r)) ls v\<rparr>]\<rparr>))
      else (Return (), s))"

definition registerClear :: action where
  "registerClear s = (Return (), s\<lparr>registerMetrics := []\<rparr>)"

text \<open>
  Modelled from the spec: \<open>collectDefaultMetrics()\<close> creates the default process metrics
  of prom-client, one after the other, in \<open>promClient.register\<close>; a name the registry
  already holds makes it raise as any other registration does. The names are those of
  prom-client 13 on Linux. Their help texts, labels and values are prom-client's own
  business and are not represented: the objects carry the name only.
\<close>

definition defaultMetricNames :: "string list" where
  "defaultMetricNames =
     [''process_cpu_user_seconds_total'', ''process_cpu_system_seconds_total'',
      ''process_cpu_seconds_total'', ''process_start_time_seconds'',
      ''process_resident_memory_bytes'', ''process_virtual_memory_bytes'',
      ''process_heap_bytes'', ''process_open_fds'', ''process_max_fds'',
      ''nodejs_eventloop_lag_seconds'', ''nodejs_eventloop_lag_min_seconds'',
      ''nodejs_eventloop_lag_max_seconds'', ''nodejs_eventloop_lag_mean_seconds'',
      ''nodejs_eventloop_lag_stddev_seconds'', ''nodejs_eventloop_lag_p50_seconds'',
      ''nodejs_eventloop_lag_p90_seconds'', ''nodejs_eventloop_lag_p99_seconds'',
      ''nodejs_active_handles'', ''nodejs_active_handles_total'',
      ''nodejs_active_requests'', ''nodejs_active_requests_total'',
      ''nodejs_heap_size_total_bytes'', ''nodejs_heap_size_used_bytes'',
      ''nodejs_external_memory_bytes'', ''nodejs_heap_space_size_total_bytes'',
      ''nodejs_heap_space_size_used_bytes'', ''nodejs_heap_space_size_available_bytes'',
      ''nodejs_version_info'', ''nodejs_gc_duration_seconds'']"

definition registerDefault :: "string \<Rightarrow> action" where
  "registerDefault nm s =
     (case newMetric Collected nm ''default metric'' [] s of
        (Throw e, s1) \<Rightarrow> (Throw e, s1)
      | (Return _, s1) \<Rightarrow> (Return (), s1))"

definition collectDefaultMetrics :: action where
  "collectDefaultMetrics s = steps (map registerDefault defaultMetricNames) s"

text \<open>
  Modelled from the spec: the text snapshot \<open>promClient.register.metrics()\<close>, as the lines
  of the counters and gauges the registry holds, in the format the repository's test
  expects (\<open>n8n_test_cache_hits_total 0\<close>, \<open>n8n_test_version_info{version="v1.2.3",...} 1\<close>).
  The lines of the default process metrics are left out. \<open>samples\<close> is the same snapshot
  before it is printed.
\<close>

fun joinWith :: "string \<Rightarrow> string list \<Rightarrow> string" where
  "joinWith sep [] = []"
| "joinWith sep [x] = x"
| "joinWith sep (x # y # ys) = x @ sep @ joinWith sep (y # ys)"

definition formatLabels :: "labels \<Rightarrow> string" where
  "formatLabels ls =
     (if ls = [] then []
      else ''{'' @ joinWith '','' (map (\<lambda>(k, v). k @ [CHR ''='', CHR 0x22] @ v @ [CHR 0x22]) ls) @ ''}'')"

definition metricLines :: "metric \<Rightarrow> string list" where
  "metricLines m =
     (if mType m = Collected then []
      else
        [''# HELP '' @ mName m @ '' '' @ mHelp m,
         ''# TYPE '' @ mName m @ '' '' @ (if mType m = Counter then ''counter'' else ''gauge'')] @
        map (\<lambda>(ls, v). mName m @ formatLabels ls @ '' '' @ showNat v) (hashMap m))"

definition registered :: "state \<Rightarrow> metric list" where
  "registered s =
     map (\<lambda>(nm, r). heap s ! r) (filter (\<lambda>(nm, r). r < length (heap s)) (registerMetrics s))"

definition metricsText :: "state \<Rightarrow> string list" where
  "metricsText s = concat (map metricLines (registered s))"

definition samples :: "state \<Rightarrow> (string \<times> labels \<times> nat) list" where
  "samples s = concat (map (\<lambda>m. map (\<lambda>(ls, v). (mName m, ls, v)) (hashMap m)) (registered s))"


subsection \<open>PrometheusMetricsService\<close>

text \<open>\<open>enableMetric\<close>, \<open>disableMetric\<close> and \<open>disableAllMetrics\<close> (lines 54 to 66).\<close>

definition enableMetric :: "MetricCategory \<Rightarrow> state \<Rightarrow> state" where
  "enableMetric m s = s\<lparr>includesMetrics := (includesMetrics s)(m := True)\<rparr>"

definition disableMetric :: "MetricCategory \<Rightarrow> state \<Rightarrow> state" where
  "disableMetric m s = s\<lparr>includesMetrics := (includesMetrics s)(m := False)\<rparr>"

definition disableAllMetrics :: "state \<Rightarrow> state" where
  "disableAllMetrics s = fold disableMetric [Default, Api, Cache, Logs] s"

text \<open>\<open>initN8nVersionMetric\<close> (lines 71 to 85).\<close>

definition initN8nVersionMetric :: action where
  "initN8nVersionMetric s =
     (case n8nVersion s of
        None \<Rightarrow> (Return (), s)
      | Some v \<Rightarrow>
          (case newMetric Gauge (prefix s @ ''version_info'') ''n8n version info.''
                  [''version'', ''major'', ''minor'', ''patch''] s of
             (Throw e, s1) \<Rightarrow> (Throw e, s1)
           | (Return versionGauge, s1) \<Rightarrow>
               gaugeSet versionGauge
                 [(''version'', ''v'' @ version v), (''major'', showNat (major v)),
                  (''minor'', showNat (minor v)), (''patch'', showNat (patch v))] 1 s1))"

text \<open>\<open>initDefaultMetrics\<close> (lines 91 to 95).\<close>

definition initDefaultMetrics :: action where
  "initDefaultMetrics s =
     (if \<not> includesMetrics s Default then (Return (), s) else collectDefaultMetrics s)"

text \<open>\<open>initApiMetrics\<close> (lines 100 to 115) and \<open>mountMetricsEndpoint\<close> (lines 117 to 123).\<close>

definition initApiMetrics :: action where
  "initApiMetrics s =
     (if \<not> includesMetrics s Api then (Return (), s)
      else
        (Return (),
         s\<lparr>app := (app s)\<lparr>middleware := middleware (app s) @
             [([''/rest/'', ''/webhook/'', ''/webhook-waiting/'', ''/form-waiting/'',
                ''/webhook-test/'', ''/api/''],
               \<lparr>autoregister = False, includeUp = False,
                includePath = lblApiPath (includesLabels s),
                includeMethod = lblApiMethod (includesLabels s),
                includeStatusCode = lblApiStatusCode (includesLabels s)\<rparr>)]\<rparr>\<rparr>))"

definition mountMetricsEndpoint :: action where
  "mountMetricsEndpoint s =
     (Return (), s\<lparr>app := (app s)\<lparr>getRoutes := getRoutes (app s) @ [''/metrics'']\<rparr>\<rparr>)"

text \<open>
  \<open>initCacheMetrics\<close> (lines 129 to 149). \<open>cacheCounter\<close> is one of its three blocks: the
  counter is created and stored under its key, incremented by zero, and the listener is
  bound to its topic.
\<close>

definition cacheCounter :: "string \<Rightarrow> string \<Rightarrow> string \<Rightarrow> cacheListener \<Rightarrow> action" where
  "cacheCounter kind key topic listener s =
     (case newMetric Counter (prefix s @ ''cache_'' @ kind @ ''_total'')
             (''Total number of cache '' @ kind @ ''.'') [''cache''] s of
        (Throw e, s1) \<Rightarrow> (Throw e, s1)
      | (Return c, s1) \<Rightarrow>
          (case inc c [] 0 (s1\<lparr>counters := setProp (counters s1) key (Some c)\<rparr>) of
             (Throw e, s2) \<Rightarrow> (Throw e, s2)
           | (Return _, s2) \<Rightarrow>
               (Return (),
                s2\<lparr>cacheServiceListeners := cacheServiceListeners s2 @ [(topic, listener)]\<rparr>)))"

definition initCacheMetrics :: action where
  "initCacheMetrics s =
     (if \<not> includesMetrics s Cache then (Return (), s)
      else
        steps
          [cacheCounter ''hits'' ''cacheHitsTotal'' ''metrics.cache.hit'' IncCacheHitsTotal,
           cacheCounter ''misses'' ''cacheMissesTotal'' ''metrics.cache.miss'' IncCacheMissesTotal,
           cacheCounter ''updates'' ''cacheUpdatesTotal'' ''metrics.cache.update'' IncCacheUpdatesTotal]
          s)"

text \<open>\<open>toCounter\<close> (lines 151 to 174).\<close>

definition toCounter :: "event \<Rightarrow> state \<Rightarrow> jsValue result \<times> state" where
  "toCounter ev s =
     (if \<not> truthy (getProp (counters s) (eventName ev)) then
        (if \<not> validateMetricName (metricName (prefix s) (eventName ev)) then
           (Return Null, s\<lparr>counters := setProp (counters s) (eventName ev) None\<rparr>)
         else
           (case newMetric Counter (metricName (prefix s) (eventName ev))
                   (''Total number of '' @ eventName ev @ '' events.'')
                   (map fst (toLabels (includesLabels s) ev)) s of
              (Throw e, s1) \<Rightarrow> (Throw e, s1)
            | (Return counter, s1) \<Rightarrow>
                (case inc counter (toLabels (includesLabels s) ev) 0 s1 of
                   (Throw e, s2) \<Rightarrow> (Throw e, s2)
                 | (Return _, s2) \<Rightarrow>
                     (Return (getProp (setProp (counters s2) (eventName ev) (Some counter)) (eventName ev)),
                      s2\<lparr>counters := setProp (counters s2) (eventName ev) (Some counter)\<rparr>))))
      else (Return (getProp (counters s) (eventName ev)), s))"

text \<open>
  The listener of \<open>initEventBusMetrics\<close> (lines 179 to 183): \<open>counter.inc(1)\<close> on a
  value that is no counter is a \<open>TypeError\<close>.
\<close>

definition onEventBusEvent :: "event \<Rightarrow> action" where
  "onEventBusEvent ev s =
     (case toCounter ev s of
        (Throw e, s1) \<Rightarrow> (Throw e, s1)
      | (Return c, s1) \<Rightarrow>
          (if \<not> truthy c then (Return (), s1)
           else
             (case c of
                CounterRef r \<Rightarrow> inc r [] 1 s1
              | _ \<Rightarrow> (Throw (TypeError ''counter.inc is not a function''), s1))))"

text \<open>\<open>initEventBusMetrics\<close> (lines 176 to 184).\<close>

definition initEventBusMetrics :: action where
  "initEventBusMetrics s =
     (if \<not> includesMetrics s Logs then (Return (), s)
      else
        (Return (),
         s\<lparr>eventBusListeners := eventBusListeners s @ [(''metrics.eventBus.event'', CountEvent)]\<rparr>))"

text \<open>\<open>init\<close> (lines 44 to 52).\<close>

definition init :: action where
  "init s =
     steps
       [registerClear, initDefaultMetrics, initN8nVersionMetric, initCacheMetrics,
        initEventBusMetrics, initApiMetrics, mountMetricsEndpoint]
       s"

subsection \<open>The event emitters\<close>

text \<open>
  Modelled from the spec: \<open>cacheService\<close> and \<open>eventBus\<close> are event emitters. \<open>on\<close> appends
  a listener (as the \<open>init\<close> functions above do), \<open>emit\<close> calls every listener bound to
  the topic, in the order they were bound, and an exception of a listener leaves \<open>emit\<close>.
  The closures of the cache listeners read \<open>this.counters\<close> when they run
  (\<open>this.counters.cacheHitsTotal?.inc(1)\<close>).
\<close>

definition cacheKey :: "cacheListener \<Rightarrow> string" where
  "cacheKey l =
     (case l of
        IncCacheHitsTotal \<Rightarrow> ''cacheHitsTotal''
      | IncCacheMissesTotal \<Rightarrow> ''cacheMissesTotal''
      | IncCacheUpdatesTotal \<Rightarrow> ''cacheUpdatesTotal'')"

definition runCacheListener :: "cacheListener \<Rightarrow> action" where
  "runCacheListener l s =
     (case getProp (counters s) (cacheKey l) of
        Undefined \<Rightarrow> (Return (), s)
      | Null \<Rightarrow> (Return (), s)
      | CounterRef r \<Rightarrow> inc r [] 1 s
      | PrototypeMember \<Rightarrow> (Throw (TypeError ''inc is not a function''), s))"

definition cacheServiceEmit :: "string \<Rightarrow> action" where
  "cacheServiceEmit topic s =
     steps (map (\<lambda>(t, l). runCacheListener l) (filter (\<lambda>(t, l). t = topic) (cacheServiceListeners s))) s"

definition eventBusEmit :: "string \<Rightarrow> event \<Rightarrow> action" where
  "eventBusEmit topic ev s =
     steps (map (\<lambda>(t, l). onEventBusEvent ev) (filter (\<lambda>(t, l). t = topic) (eventBusListeners s))) s"

text \<open>
  What can happen to the service, one call after another: \<open>init\<close>, a cache event, a
  message of the event bus, or a category toggle. An exception of \<open>init\<close> or of a listener
  reaches the caller; the state it leaves is the one the next call meets.
\<close>

datatype call =
    Init
  | CacheHit | CacheMiss | CacheUpdate
  | BusEvent event
  | Enable MetricCategory | Disable MetricCategory | DisableAll

definition perform :: "call \<Rightarrow> state \<Rightarrow> state" where
  "perform c s =
     (case c of
        Init \<Rightarrow> snd (init s)
      | CacheHit \<Rightarrow> snd (cacheServiceEmit ''metrics.cache.hit'' s)
      | CacheMiss \<Rightarrow> snd (cacheServiceEmit ''metrics.cache.miss'' s)
      | CacheUpdate \<Rightarrow> snd (cacheServiceEmit ''metrics.cache.update'' s)
      | BusEvent ev \<Rightarrow> snd (eventBusEmit ''metrics.eventBus.event'' ev s)
      | Enable m \<Rightarrow> enableMetric m s
      | Disable m \<Rightarrow> disableMetric m s
      | DisableAll \<Rightarrow> disableAllMetrics s)"

definition performAll :: "call list \<Rightarrow> state \<Rightarrow> state" where
  "performAll cs s = fold perform cs s"

definition isDelivery :: "call \<Rightarrow> bool" where
  "isDelivery c =
     (case c of CacheHit \<Rightarrow> True | CacheMiss \<Rightarrow> True | CacheUpdate \<Rightarrow> True
      | BusEvent ev \<Rightarrow> True | _ \<Rightarrow> False)"

definition isToggle :: "call \<Rightarrow> bool" where
  "isToggle c = (case c of Enable m \<Rightarrow> True | Disable m \<Rightarrow> True | DisableAll \<Rightarrow> True | _ \<Rightarrow> False)"

definition isCacheEvent :: "call \<Rightarrow> bool" where
  "isCacheEvent c = (case c of CacheHit \<Rightarrow> True | CacheMiss \<Rightarrow> True | CacheUpdate \<Rightarrow> True | _ \<Rightarrow> False)"

text \<open>
  A service that has just been constructed, with its configuration: nothing is cached,
  stored, registered or bound.
\<close>

definition newService :: "string \<Rightarrow> SemVer option \<Rightarrow> (MetricCategory \<Rightarrow> bool) \<Rightarrow> labelFlags \<Rightarrow> state" where
  "newService pfx ver cats fl =
     \<lparr>prefix = pfx, n8nVersion = ver, includesMetrics = cats, includesLabels = fl,
      counters = [], heap = [], registerMetrics = [],
      cacheServiceListeners = [], eventBusListeners = [],
      app = \<lparr>middleware = [], getRoutes = []\<rparr>\<rparr>"

definition noLabels :: labelFlags where
  "noLabels =
     \<lparr>lblCredentialsType = False, lblNodeType = False, lblWorkflowId = False,
      lblApiPath = False, lblApiMethod = False, lblApiStatusCode = False\<rparr>"

definition onlyCategory :: "MetricCategory \<Rightarrow> MetricCategory \<Rightarrow> bool" where
  "onlyCategory m = (\<lambda>c. c = m)"

definition mkEvent :: "EventMessageTypeNames \<Rightarrow> string \<Rightarrow> event" where
  "mkEvent ty en =
     \<lparr>eventType = ty, eventName = en,
      payload = \<lparr>credentialType = None, workflowId = None, nodeType = None\<rparr>\<rparr>"


subsection \<open>Scenarios\<close>

text \<open>
  The configuration of the repository's test (prefix \<open>n8n_test_\<close>, every label flag off)
  with the event-bus category enabled, the same with the \<open>workflowId\<close> label flag on,
  and the events used below.
\<close>

definition testVersion :: SemVer where
  "testVersion = \<lparr>version = ''1.2.3'', major = 1, minor = 2, patch = 3\<rparr>"

definition logsService :: state where
  "logsService = newService ''n8n_test_'' (Some testVersion) (onlyCategory Logs) noLabels"

definition workflowUpdated :: event where
  "workflowUpdated = mkEvent Audit ''n8n.audit.workflow.updated''"

definition labelledService :: state where
  "labelledService =
     newService ''n8n_test_'' (Some testVersion) (onlyCategory Logs) (noLabels\<lparr>lblWorkflowId := True\<rparr>)"

definition workflowSuccess :: "string \<Rightarrow> event" where
  "workflowSuccess wid =
     \<lparr>eventType = Workflow, eventName = ''n8n.workflow.success'',
      payload = \<lparr>credentialType = None, workflowId = Some wid, nodeType = None\<rparr>\<rparr>"

definition credEvent :: "string option \<Rightarrow> event" where
  "credEvent ct =
     \<lparr>eventType = Audit, eventName = ''n8n.audit.user.credentials.created'',
      payload = \<lparr>credentialType = ct, workflowId = None, nodeType = None\<rparr>\<rparr>"


subsection \<open>Objects and invariants used in the proofs\<close>

text \<open>
  The objects \<open>init\<close> creates, as they are once \<open>init\<close> is done with them: a default
  metric, the version gauge set to 1 and a cache counter incremented by zero.
  \<open>numbered\<close> pairs names with consecutive references.
\<close>

definition defaultObject :: "string \<Rightarrow> metric" where
  "defaultObject nm =
     \<lparr>mType = Collected, mName = nm, mHelp = ''default metric'', mLabelNames = [], hashMap = []\<rparr>"

fun numbered :: "string list \<Rightarrow> nat \<Rightarrow> (string \<times> nat) list" where
  "numbered [] n = []"
| "numbered (x # xs) n = (x, n) # numbered xs (Suc n)"

text \<open>The state in which \<open>init\<close> reaches \<open>initN8nVersionMetric\<close>.\<close>

definition afterDefaults :: "state \<Rightarrow> state" where
  "afterDefaults s =
     (if includesMetrics s Default
      then s\<lparr>heap := heap s @ map defaultObject defaultMetricNames,
             registerMetrics := numbered defaultMetricNames (length (heap s))\<rparr>
      else s\<lparr>registerMetrics := []\<rparr>)"

definition versionLabels :: "SemVer \<Rightarrow> labels" where
  "versionLabels v =
     [(''version'', ''v'' @ version v), (''major'', showNat (major v)),
      (''minor'', showNat (minor v)), (''patch'', showNat (patch v))]"

definition versionGaugeObject :: "string \<Rightarrow> SemVer \<Rightarrow> metric" where
  "versionGaugeObject pfx v =
     \<lparr>mType = Gauge, mName = pfx @ ''version_info'', mHelp = ''n8n version info.'',
      mLabelNames = [''version'', ''major'', ''minor'', ''patch''],
      hashMap = [(versionLabels v, 1)]\<rparr>"

definition cacheCounterObject :: "string \<Rightarrow> string \<Rightarrow> metric" where
  "cacheCounterObject pfx kind =
     \<lparr>mType = Counter, mName = pfx @ ''cache_'' @ kind @ ''_total'',
      mHelp = ''Total number of cache '' @ kind @ ''.'', mLabelNames = [''cache''],
      hashMap = [([], 0)]\<rparr>"

text \<open>
  Every reference stored in \<open>counters\<close> denotes a counter of the store. This holds of a
  new service and is kept by every call.
\<close>

definition counterRefs :: "state \<Rightarrow> bool" where
  "counterRefs s =
     list_all (\<lambda>r. r < length (heap s) \<and> mType (heap s ! r) = Counter)
       (List.map_filter snd (counters s))"

text \<open>
  What every call keeps: the prefix and the parsed version are constants of the service,
  the references in \<open>counters\<close> denote counters, and no two registered metrics share a
  name.
\<close>

definition consistent :: "string \<Rightarrow> SemVer option \<Rightarrow> state \<Rightarrow> bool" where
  "consistent pfx ver s =
     (prefix s = pfx \<and> n8nVersion s = ver \<and> counterRefs s \<and>
      distinct (map fst (registerMetrics s)))"

section \<open>Properties of the lookup-or-create path\<close>

lemma map_of_setProp: "map_of (setProp obj k v) = (map_of obj)(k \<mapsto> v)"
  by (induction obj k v rule: setProp.induct) auto

lemma getProp_setProp_Some: "getProp (setProp obj k (Some r)) k = CounterRef r"
  by (simp add: getProp_def map_of_setProp)

lemma getProp_setProp_None: "getProp (setProp obj k None) k = Null"
  by (simp add: getProp_def map_of_setProp)

lemma setProp_again: "setProp (setProp obj k v) k v = setProp obj k v"
  by (induction obj k v rule: setProp.induct) auto

lemma toLabels_names_valid: "list_all validateLabelName (map fst (toLabels fl ev))"
  by (cases "eventType ev")
     (simp_all add: toLabels_def validateLabelName_def isLetter_def isDigit_def)

lemma validateLabel_own: "validateLabel (map fst ls) ls"
  by (simp add: validateLabel_def list_all_iff)

lemma toCounter_cached:
  "truthy (getProp (counters s) (eventName ev)) \<Longrightarrow>
   toCounter ev s = (Return (getProp (counters s) (eventName ev)), s)"
  by (simp add: toCounter_def)

lemma toCounter_invalid:
  "\<not> truthy (getProp (counters s) (eventName ev)) \<Longrightarrow>
   \<not> validateMetricName (metricName (prefix s) (eventName ev)) \<Longrightarrow>
   toCounter ev s = (Return Null, s\<lparr>counters := setProp (counters s) (eventName ev) None\<rparr>)"
  by (simp add: toCounter_def)

lemma toCounter_duplicate:
  "\<not> truthy (getProp (counters s) (eventName ev)) \<Longrightarrow>
   validateMetricName (metricName (prefix s) (eventName ev)) \<Longrightarrow>
   metricName (prefix s) (eventName ev) \<in> set (map fst (registerMetrics s)) \<Longrightarrow>
   toCounter ev s =
     (Throw (Error (''A metric with the name '' @ metricName (prefix s) (eventName ev) @
         '' has already been registered.'')), s)"
  by (auto simp: toCounter_def newMetric_def toLabels_names_valid metricName_def)

lemma toCounter_created:
  "\<not> truthy (getProp (counters s) (eventName ev)) \<Longrightarrow>
   validateMetricName (metricName (prefix s) (eventName ev)) \<Longrightarrow>
   metricName (prefix s) (eventName ev) \<notin> set (map fst (registerMetrics s)) \<Longrightarrow>
   toCounter ev s =
     (Return (CounterRef (length (heap s))),
      s\<lparr>heap := heap s @
           [\<lparr>mType = Counter, mName = metricName (prefix s) (eventName ev),
             mHelp = ''Total number of '' @ eventName ev @ '' events.'',
             mLabelNames = map fst (toLabels (includesLabels s) ev),
             hashMap = [(toLabels (includesLabels s) ev, 0)]\<rparr>],
         registerMetrics := registerMetrics s @ [(metricName (prefix s) (eventName ev), length (heap s))],
         counters := setProp (counters s) (eventName ev) (Some (length (heap s)))\<rparr>)"
  by (auto simp: toCounter_def newMetric_def toLabels_names_valid metricName_def inc_def
      validateLabel_own getProp_setProp_Some)

lemma toCounter_again:
  assumes "eventName e2 = eventName e1"
  shows "toCounter e2 (snd (toCounter e1 s)) = toCounter e1 s"
proof (cases "truthy (getProp (counters s) (eventName e1))")
  case True
  then show ?thesis using assms by (simp add: toCounter_cached)
next
  case miss: False
  show ?thesis
  proof (cases "validateMetricName (metricName (prefix s) (eventName e1))")
    case False
    with miss assms show ?thesis
      by (simp add: toCounter_invalid getProp_setProp_None truthy_def setProp_again)
  next
    case valid: True
    show ?thesis
    proof (cases "metricName (prefix s) (eventName e1) \<in> set (map fst (registerMetrics s))")
      case True
      with miss valid assms show ?thesis
        by (simp add: toCounter_duplicate)
    next
      case False
      with miss valid assms show ?thesis
        by (simp add: toCounter_created toCounter_cached getProp_setProp_Some truthy_def)
    qed
  qed
qed


section \<open>Sequences of statements and of calls\<close>

lemma steps_preserve:
  assumes "\<And>a s. a \<in> set as \<Longrightarrow> P s \<Longrightarrow> P (snd (a s))" and "P s"
  shows "P (snd (steps as s))"
  using assms
proof (induction as arbitrary: s)
  case Nil
  then show ?case by simp
next
  case (Cons a as)
  obtain r s' where a: "a s = (r, s')" by (cases "a s")
  from Cons.prems have s': "P s'" using a by (metis list.set_intros(1) snd_conv)
  show ?case
  proof (cases r)
    case (Return u)
    with a Cons.IH [of s'] Cons.prems(1) s' show ?thesis by simp
  next
    case (Throw e)
    with a s' show ?thesis by simp
  qed
qed

lemma performAll_preserve:
  assumes "\<And>c s. P s \<Longrightarrow> P (perform c s)" and "P s"
  shows "P (performAll cs s)"
  using assms unfolding performAll_def
  by (induction cs arbitrary: s) auto

lemma inc_registerMetrics [simp]: "registerMetrics (snd (inc r ls v s)) = registerMetrics s"
  by (simp add: inc_def)

lemma inc_counters [simp]: "counters (snd (inc r ls v s)) = counters s"
  by (simp add: inc_def)

lemma inc_names [simp]: "map mName (heap (snd (inc r ls v s))) = map mName (heap s)"
  by (simp add: inc_def map_update list_update_same_conv)

lemma inc_length [simp]: "length (heap (snd (inc r ls v s))) = length (heap s)"
  by (simp add: inc_def)

lemma inc_no_labels [simp]: "fst (inc r [] v s) = Return ()"
  by (simp add: inc_def validateLabel_def)

lemma runCacheListener_keeps:
  "registerMetrics (snd (runCacheListener l s)) = registerMetrics s \<and>
   map mName (heap (snd (runCacheListener l s))) = map mName (heap s)"
  by (simp add: runCacheListener_def split: jsValue.splits)

lemma cacheServiceEmit_keeps:
  "registerMetrics (snd (cacheServiceEmit topic s)) = registerMetrics s \<and>
   map mName (heap (snd (cacheServiceEmit topic s))) = map mName (heap s)"
proof -
  define R where "R = registerMetrics s"
  define N where "N = map mName (heap s)"
  have "registerMetrics (snd (cacheServiceEmit topic s)) = R \<and>
        map mName (heap (snd (cacheServiceEmit topic s))) = N"
    unfolding cacheServiceEmit_def
    by (rule steps_preserve [where P = "\<lambda>t. registerMetrics t = R \<and> map mName (heap t) = N"])
       (auto simp: R_def N_def runCacheListener_keeps)
  then show ?thesis by (simp add: R_def N_def)
qed

lemma registered_names:
  assumes "registerMetrics s' = registerMetrics s"
    and "map mName (heap s') = map mName (heap s)"
  shows "map mName (registered s') = map mName (registered s)"
proof -
  from assms(2) have len: "length (heap s') = length (heap s)"
    by (metis length_map)
  have nm: "\<And>r. r < length (heap s) \<Longrightarrow> mName (heap s' ! r) = mName (heap s ! r)"
    using assms(2) len by (metis nth_map)
  have "map mName (map (\<lambda>(nm, r). heap s' ! r) (filter (\<lambda>(nm, r). r < length (heap s)) rs)) =
        map mName (map (\<lambda>(nm, r). heap s ! r) (filter (\<lambda>(nm, r). r < length (heap s)) rs))"
    for rs :: "(string \<times> nat) list"
    by (induction rs) (auto simp: nm)
  then show ?thesis by (simp add: registered_def assms(1) len)
qed

lemma cache_event_keeps:
  assumes "isCacheEvent c"
  shows "registerMetrics (perform c s) = registerMetrics s \<and>
         map mName (heap (perform c s)) = map mName (heap s)"
proof (cases c)
  case CacheHit
  then show ?thesis using cacheServiceEmit_keeps [of "''metrics.cache.hit''" s]
    by (simp add: perform_def)
next
  case CacheMiss
  then show ?thesis using cacheServiceEmit_keeps [of "''metrics.cache.miss''" s]
    by (simp add: perform_def)
next
  case CacheUpdate
  then show ?thesis using cacheServiceEmit_keeps [of "''metrics.cache.update''" s]
    by (simp add: perform_def)
qed (use assms in \<open>simp_all add: isCacheEvent_def\<close>)

lemma cache_events_keep_names:
  assumes "list_all isCacheEvent cs"
  shows "map mName (registered (performAll cs s)) = map mName (registered s)"
proof -
  have "registerMetrics (fold perform cs s) = registerMetrics s \<and>
        map mName (heap (fold perform cs s)) = map mName (heap s)"
    using assms
  proof (induction cs arbitrary: s)
    case Nil
    then show ?case by simp
  next
    case (Cons c cs)
    from Cons.prems have c: "isCacheEvent c" and cs: "list_all isCacheEvent cs" by simp_all
    from cache_event_keeps [OF c, of s] Cons.IH [OF cs, of "perform c s"]
    show ?case by simp
  qed
  then have r: "registerMetrics (fold perform cs s) = registerMetrics s"
    and n: "map mName (heap (fold perform cs s)) = map mName (heap s)"
    by blast+
  show ?thesis unfolding performAll_def by (rule registered_names [OF r n])
qed

section \<open>What init registers\<close>

lemma registered_simps [simp]:
  "registered (s\<lparr>app := a\<rparr>) = registered s"
  "registered (s\<lparr>eventBusListeners := b\<rparr>) = registered s"
  "registered (s\<lparr>cacheServiceListeners := c\<rparr>) = registered s"
  "registered (s\<lparr>counters := k\<rparr>) = registered s"
  "registered (s\<lparr>includesMetrics := f\<rparr>) = registered s"
  "registered (s\<lparr>includesLabels := l\<rparr>) = registered s"
  by (simp_all add: registered_def)

lemma showNat_0: "showNat 0 = ''0''"
  by (simp add: showNat.simps)

lemma valid_test_names:
  "validateMetricName ''n8n_test_cache_hits_total''"
  "validateMetricName ''n8n_test_cache_misses_total''"
  "validateMetricName ''n8n_test_cache_updates_total''"
  "validateMetricName ''n8n_test_version_info''"
  by (simp_all add: validateMetricName_def isLetter_def isDigit_def)

lemma map_fst_numbered [simp]: "map fst (numbered ns n) = ns"
  by (induction ns arbitrary: n) auto

lemma default_names_distinct: "distinct defaultMetricNames"
  by (simp add: defaultMetricNames_def)

lemma default_names_valid: "list_all validateMetricName defaultMetricNames"
  by (simp add: defaultMetricNames_def validateMetricName_def isLetter_def isDigit_def)

lemma not_suffix:
  assumes "list_all (\<lambda>n. drop (length n - length x) n \<noteq> x) ns"
  shows "pfx @ x \<notin> set ns"
proof
  assume "pfx @ x \<in> set ns"
  with assms have "drop (length (pfx @ x) - length x) (pfx @ x) \<noteq> x"
    by (auto simp: list_all_iff)
  then show False by simp
qed

lemma default_names_no_cache:
  "pfx @ ''cache_hits_total'' \<notin> set defaultMetricNames"
  "pfx @ ''cache_misses_total'' \<notin> set defaultMetricNames"
  "pfx @ ''cache_updates_total'' \<notin> set defaultMetricNames"
  by (rule not_suffix, simp add: defaultMetricNames_def)+

lemma default_names_test_version: "''n8n_test_version_info'' \<notin> set defaultMetricNames"
  by (simp add: defaultMetricNames_def)

lemma registerDefault_ok:
  assumes "validateMetricName n" and "n \<notin> set (map fst (registerMetrics s))"
  shows "registerDefault n s =
     (Return (), s\<lparr>heap := heap s @ [defaultObject n],
                    registerMetrics := registerMetrics s @ [(n, length (heap s))]\<rparr>)"
proof -
  from assms(1) have "n \<noteq> []" by (auto simp: validateMetricName_def)
  with assms show ?thesis
    by (simp add: registerDefault_def newMetric_def defaultObject_def)
qed

lemma registerDefaults_ok:
  assumes "distinct ns" and "list_all validateMetricName ns"
    and "set ns \<inter> set (map fst (registerMetrics s)) = {}"
  shows "steps (map registerDefault ns) s =
     (Return (), s\<lparr>heap := heap s @ map defaultObject ns,
                    registerMetrics := registerMetrics s @ numbered ns (length (heap s))\<rparr>)"
  using assms
proof (induction ns arbitrary: s)
  case Nil
  then show ?case by simp
next
  case (Cons n ns)
  let ?s1 = "s\<lparr>heap := heap s @ [defaultObject n],
               registerMetrics := registerMetrics s @ [(n, length (heap s))]\<rparr>"
  from Cons.prems have one: "registerDefault n s = (Return (), ?s1)"
    by (intro registerDefault_ok) auto
  from Cons.prems have "set ns \<inter> set (map fst (registerMetrics ?s1)) = {}" by auto
  with Cons.IH [of ?s1] Cons.prems
  have "steps (map registerDefault ns) ?s1 =
     (Return (), ?s1\<lparr>heap := heap ?s1 @ map defaultObject ns,
                    registerMetrics := registerMetrics ?s1 @ numbered ns (length (heap ?s1))\<rparr>)"
    by simp
  with one show ?case by simp
qed

lemma collectDefaultMetrics_ok:
  assumes "registerMetrics s = []"
  shows "collectDefaultMetrics s =
     (Return (), s\<lparr>heap := heap s @ map defaultObject defaultMetricNames,
                    registerMetrics := numbered defaultMetricNames (length (heap s))\<rparr>)"
  using registerDefaults_ok [OF default_names_distinct default_names_valid, of s] assms
  by (simp add: collectDefaultMetrics_def)

lemma init_head:
  "init s =
     steps [initN8nVersionMetric, initCacheMetrics, initEventBusMetrics, initApiMetrics,
            mountMetricsEndpoint] (afterDefaults s)"
  using collectDefaultMetrics_ok [of "s\<lparr>registerMetrics := []\<rparr>"]
  by (simp add: init_def registerClear_def initDefaultMetrics_def afterDefaults_def)

lemma afterDefaults_fields [simp]:
  "prefix (afterDefaults s) = prefix s"
  "n8nVersion (afterDefaults s) = n8nVersion s"
  "includesMetrics (afterDefaults s) = includesMetrics s"
  "includesLabels (afterDefaults s) = includesLabels s"
  "counters (afterDefaults s) = counters s"
  "eventBusListeners (afterDefaults s) = eventBusListeners s"
  "cacheServiceListeners (afterDefaults s) = cacheServiceListeners s"
  "map fst (registerMetrics (afterDefaults s)) =
     (if includesMetrics s Default then defaultMetricNames else [])"
  by (simp_all add: afterDefaults_def)

lemma cacheCounter_ok:
  assumes "validateMetricName (prefix s @ ''cache_'' @ kind @ ''_total'')"
    and "prefix s @ ''cache_'' @ kind @ ''_total'' \<notin> set (map fst (registerMetrics s))"
  shows "cacheCounter kind key topic l s =
     (Return (),
      s\<lparr>heap := heap s @
           [\<lparr>mType = Counter, mName = prefix s @ ''cache_'' @ kind @ ''_total'',
             mHelp = ''Total number of cache '' @ kind @ ''.'', mLabelNames = [''cache''],
             hashMap = [([], 0)]\<rparr>],
         registerMetrics := registerMetrics s @ [(prefix s @ ''cache_'' @ kind @ ''_total'', length (heap s))],
         counters := setProp (counters s) key (Some (length (heap s))),
         cacheServiceListeners := cacheServiceListeners s @ [(topic, l)]\<rparr>)"
  using assms
  by (simp add: cacheCounter_def newMetric_def inc_def validateLabel_def validateLabelName_def
      isLetter_def isDigit_def)

lemma initCacheMetrics_ok:
  assumes "includesMetrics s Cache"
    and "validateMetricName (prefix s @ ''cache_hits_total'')"
    and "validateMetricName (prefix s @ ''cache_misses_total'')"
    and "validateMetricName (prefix s @ ''cache_updates_total'')"
    and "prefix s @ ''cache_hits_total'' \<notin> set (map fst (registerMetrics s))"
    and "prefix s @ ''cache_misses_total'' \<notin> set (map fst (registerMetrics s))"
    and "prefix s @ ''cache_updates_total'' \<notin> set (map fst (registerMetrics s))"
  shows "initCacheMetrics s =
     (Return (),
      s\<lparr>heap := heap s @
           [cacheCounterObject (prefix s) ''hits'', cacheCounterObject (prefix s) ''misses'',
            cacheCounterObject (prefix s) ''updates''],
         registerMetrics := registerMetrics s @
           [(prefix s @ ''cache_hits_total'', length (heap s)),
            (prefix s @ ''cache_misses_total'', Suc (length (heap s))),
            (prefix s @ ''cache_updates_total'', Suc (Suc (length (heap s))))],
         counters :=
           setProp (setProp (setProp (counters s) ''cacheHitsTotal'' (Some (length (heap s))))
             ''cacheMissesTotal'' (Some (Suc (length (heap s)))))
             ''cacheUpdatesTotal'' (Some (Suc (Suc (length (heap s))))),
         cacheServiceListeners := cacheServiceListeners s @
           [(''metrics.cache.hit'', IncCacheHitsTotal), (''metrics.cache.miss'', IncCacheMissesTotal),
            (''metrics.cache.update'', IncCacheUpdatesTotal)]\<rparr>)"
proof -
  let ?hits = "cacheCounter ''hits'' ''cacheHitsTotal'' ''metrics.cache.hit'' IncCacheHitsTotal"
  let ?misses = "cacheCounter ''misses'' ''cacheMissesTotal'' ''metrics.cache.miss'' IncCacheMissesTotal"
  let ?updates = "cacheCounter ''updates'' ''cacheUpdatesTotal'' ''metrics.cache.update'' IncCacheUpdatesTotal"
  note fresh1 = assms(5) and fresh2 = assms(6) and fresh3 = assms(7)
  obtain s1 where s1: "?hits s = (Return (), s1)"
    and s1_def: "s1 = s\<lparr>heap := heap s @ [cacheCounterObject (prefix s) ''hits''],
         registerMetrics := registerMetrics s @ [(prefix s @ ''cache_hits_total'', length (heap s))],
         counters := setProp (counters s) ''cacheHitsTotal'' (Some (length (heap s))),
         cacheServiceListeners := cacheServiceListeners s @ [(''metrics.cache.hit'', IncCacheHitsTotal)]\<rparr>"
    using cacheCounter_ok [of s "''hits''" "''cacheHitsTotal''" "''metrics.cache.hit''" IncCacheHitsTotal]
      assms(2) fresh1
    by (simp add: cacheCounterObject_def)
  obtain s2 where s2: "?misses s1 = (Return (), s2)"
    and s2_def: "s2 = s1\<lparr>heap := heap s1 @ [cacheCounterObject (prefix s) ''misses''],
         registerMetrics := registerMetrics s1 @ [(prefix s @ ''cache_misses_total'', length (heap s1))],
         counters := setProp (counters s1) ''cacheMissesTotal'' (Some (length (heap s1))),
         cacheServiceListeners := cacheServiceListeners s1 @ [(''metrics.cache.miss'', IncCacheMissesTotal)]\<rparr>"
    using cacheCounter_ok [of s1 "''misses''" "''cacheMissesTotal''" "''metrics.cache.miss''" IncCacheMissesTotal]
      assms(3) fresh2
    by (simp add: cacheCounterObject_def s1_def)
  obtain s3 where s3: "?updates s2 = (Return (), s3)"
    and s3_def: "s3 = s2\<lparr>heap := heap s2 @ [cacheCounterObject (prefix s) ''updates''],
         registerMetrics := registerMetrics s2 @ [(prefix s @ ''cache_updates_total'', length (heap s2))],
         counters := setProp (counters s2) ''cacheUpdatesTotal'' (Some (length (heap s2))),
         cacheServiceListeners := cacheServiceListeners s2 @ [(''metrics.cache.update'', IncCacheUpdatesTotal)]\<rparr>"
    using cacheCounter_ok [of s2 "''updates''" "''cacheUpdatesTotal''" "''metrics.cache.update''" IncCacheUpdatesTotal]
      assms(4) fresh3
    by (simp add: cacheCounterObject_def s2_def s1_def)
  have "initCacheMetrics s = (Return (), s3)"
    using assms(1) s1 s2 s3 by (simp add: initCacheMetrics_def)
  then show ?thesis
    by (simp add: s3_def s2_def s1_def)
qed

lemma registered_cong:
  "heap t = heap s \<Longrightarrow> registerMetrics t = registerMetrics s \<Longrightarrow> registered t = registered s"
  by (simp add: registered_def)

lemma registered_iff:
  "m \<in> set (registered s) \<longleftrightarrow>
     (\<exists>nm r. (nm, r) \<in> set (registerMetrics s) \<and> r < length (heap s) \<and> heap s ! r = m)"
  by (auto simp: registered_def image_iff)

lemma metricsText_line:
  "m \<in> set (registered s) \<Longrightarrow> mType m \<noteq> Collected \<Longrightarrow> (ls, v) \<in> set (hashMap m) \<Longrightarrow>
   mName m @ formatLabels ls @ '' '' @ showNat v \<in> set (metricsText s)"
  by (force simp: metricsText_def metricLines_def)

lemma samples_member:
  "m \<in> set (registered s) \<Longrightarrow> (ls, v) \<in> set (hashMap m) \<Longrightarrow>
   (mName m, ls, v) \<in> set (samples s)"
  by (force simp: samples_def)

lemma init_tail:
  "\<exists>t'. steps [initEventBusMetrics, initApiMetrics, mountMetricsEndpoint] t = (Return (), t') \<and>
        heap t' = heap t \<and> registerMetrics t' = registerMetrics t \<and> counters t' = counters t \<and>
        prefix t' = prefix t \<and> n8nVersion t' = n8nVersion t \<and>
        cacheServiceListeners t' = cacheServiceListeners t \<and>
        eventBusListeners t' =
          (if includesMetrics t Logs
           then eventBusListeners t @ [(''metrics.eventBus.event'', CountEvent)]
           else eventBusListeners t)"
  by (simp add: initEventBusMetrics_def initApiMetrics_def mountMetricsEndpoint_def)

lemma initN8nVersionMetric_ok:
  assumes "n8nVersion s = Some v" and "validateMetricName (prefix s @ ''version_info'')"
    and "prefix s @ ''version_info'' \<notin> set (map fst (registerMetrics s))"
  shows "initN8nVersionMetric s =
     (Return (),
      s\<lparr>heap := heap s @ [versionGaugeObject (prefix s) v],
        registerMetrics := registerMetrics s @ [(prefix s @ ''version_info'', length (heap s))]\<rparr>)"
  using assms
  by (simp add: initN8nVersionMetric_def newMetric_def gaugeSet_def validateLabel_def
      validateLabelName_def isLetter_def isDigit_def versionGaugeObject_def versionLabels_def)

lemma validateMetricName_append:
  assumes "validateMetricName (p @ x)" and "validateMetricName y"
    and "p = [] \<Longrightarrow> validateMetricName y"
  shows "validateMetricName (p @ y)"
  using assms
  by (cases p; cases y) (auto simp: validateMetricName_def)

lemma valid_cache_names:
  assumes "validateMetricName (p @ ''version_info'')"
  shows "validateMetricName (p @ ''cache_hits_total'')"
    and "validateMetricName (p @ ''cache_misses_total'')"
    and "validateMetricName (p @ ''cache_updates_total'')"
  by (rule validateMetricName_append [OF assms];
      simp add: validateMetricName_def isLetter_def isDigit_def)+

lemma steps_Cons_snd:
  "snd (steps (a # as) s) =
     (case fst (a s) of Return u \<Rightarrow> snd (steps as (snd (a s))) | Throw e \<Rightarrow> snd (a s))"
  by (cases "a s") (auto split: result.splits)

section \<open>Invariants of the service\<close>

lemma getProp_CounterRef: "getProp obj k = CounterRef r \<Longrightarrow> (k, Some r) \<in> set obj"
  by (auto simp: getProp_def split: option.splits if_splits dest: map_of_SomeD)

lemma counterRefs_iff:
  "counterRefs s \<longleftrightarrow>
     (\<forall>k r. (k, Some r) \<in> set (counters s) \<longrightarrow> r < length (heap s) \<and> mType (heap s ! r) = Counter)"
  by (force simp: counterRefs_def list_all_iff map_filter_def)

lemma set_setProp: "set (setProp obj k v) \<subseteq> insert (k, v) (set obj)"
  by (induction obj k v rule: setProp.induct) auto

lemma counterRefs_cong:
  assumes "counters t = counters s" and "map mType (heap t) = map mType (heap s)"
  shows "counterRefs t = counterRefs s"
proof -
  from assms(2) have len: "length (heap t) = length (heap s)"
    by (metis length_map)
  have ty: "\<And>r. r < length (heap s) \<Longrightarrow> mType (heap t ! r) = mType (heap s ! r)"
    using assms(2) len by (metis nth_map)
  show ?thesis
    unfolding counterRefs_iff assms(1) len using ty by metis
qed

lemma counterRefs_ref:
  "counterRefs s \<Longrightarrow> (k, Some r) \<in> set (counters s) \<Longrightarrow>
   r < length (heap s) \<and> mType (heap s ! r) = Counter"
  by (simp add: counterRefs_iff)

lemma inc_types [simp]: "map mType (heap (snd (inc r ls v s))) = map mType (heap s)"
  by (simp add: inc_def map_update list_update_same_conv)

lemma inc_consts [simp]:
  "prefix (snd (inc r ls v s)) = prefix s"
  "n8nVersion (snd (inc r ls v s)) = n8nVersion s"
  "includesMetrics (snd (inc r ls v s)) = includesMetrics s"
  "includesLabels (snd (inc r ls v s)) = includesLabels s"
  "eventBusListeners (snd (inc r ls v s)) = eventBusListeners s"
  "cacheServiceListeners (snd (inc r ls v s)) = cacheServiceListeners s"
  by (simp_all add: inc_def)

lemma counterRefs_inc [simp]: "counterRefs (snd (inc r ls v s)) = counterRefs s"
  by (rule counterRefs_cong) simp_all

lemma counterRefs_simps [simp]:
  "counterRefs (s\<lparr>app := a\<rparr>) = counterRefs s"
  "counterRefs (s\<lparr>eventBusListeners := b\<rparr>) = counterRefs s"
  "counterRefs (s\<lparr>cacheServiceListeners := c\<rparr>) = counterRefs s"
  "counterRefs (s\<lparr>registerMetrics := k\<rparr>) = counterRefs s"
  "counterRefs (s\<lparr>includesMetrics := f\<rparr>) = counterRefs s"
  "counterRefs (s\<lparr>includesLabels := l\<rparr>) = counterRefs s"
  by (simp_all add: counterRefs_def)

lemma counterRefs_setNull:
  "counterRefs s \<Longrightarrow> counterRefs (s\<lparr>counters := setProp (counters s) k None\<rparr>)"
  using set_setProp [of "counters s" k None] by (auto simp: counterRefs_iff)

lemma counterRefs_new:
  assumes "counterRefs s" and "mType m = Counter"
  shows "counterRefs (s\<lparr>heap := heap s @ [m], registerMetrics := rs,
            counters := setProp (counters s) k (Some (length (heap s)))\<rparr>)"
  unfolding counterRefs_iff
proof (intro allI impI)
  fix k' r
  assume "(k', Some r) \<in> set (counters (s\<lparr>heap := heap s @ [m], registerMetrics := rs,
            counters := setProp (counters s) k (Some (length (heap s)))\<rparr>))"
  then have "(k', Some r) \<in> insert (k, Some (length (heap s))) (set (counters s))"
    using set_setProp [of "counters s" k "Some (length (heap s))"] by auto
  then consider "r = length (heap s)" | "(k', Some r) \<in> set (counters s)" by auto
  then show "r < length (heap (s\<lparr>heap := heap s @ [m], registerMetrics := rs,
            counters := setProp (counters s) k (Some (length (heap s)))\<rparr>)) \<and>
        mType (heap (s\<lparr>heap := heap s @ [m], registerMetrics := rs,
            counters := setProp (counters s) k (Some (length (heap s)))\<rparr>) ! r) = Counter"
  proof cases
    case 1
    then show ?thesis using assms(2) by simp
  next
    case 2
    from counterRefs_ref [OF assms(1) 2] show ?thesis by (simp add: nth_append)
  qed
qed

lemma registered_grows:
  assumes "set (registerMetrics s) \<subseteq> set (registerMetrics t)"
    and "heap t = heap s @ hs"
  shows "set (registered s) \<subseteq> set (registered t)"
proof
  fix m
  assume "m \<in> set (registered s)"
  then obtain nm r where "(nm, r) \<in> set (registerMetrics s)" "r < length (heap s)" "heap s ! r = m"
    unfolding registered_iff by blast
  with assms have "(nm, r) \<in> set (registerMetrics t) \<and> r < length (heap t) \<and> heap t ! r = m"
    by (auto simp: nth_append)
  then show "m \<in> set (registered t)"
    unfolding registered_iff by blast
qed

lemma registered_inc:
  assumes "m \<in> set (registered s)" and "mType m = Gauge"
    and "r < length (heap s) \<Longrightarrow> mType (heap s ! r) = Counter"
  shows "m \<in> set (registered (snd (inc r ls v s)))"
proof -
  from assms(1) obtain nm g where g: "(nm, g) \<in> set (registerMetrics s)" "g < length (heap s)"
    "heap s ! g = m"
    unfolding registered_iff by blast
  with assms(2,3) have "g \<noteq> r" by auto
  with g have "(nm, g) \<in> set (registerMetrics (snd (inc r ls v s))) \<and>
      g < length (heap (snd (inc r ls v s))) \<and> heap (snd (inc r ls v s)) ! g = m"
    by (simp add: inc_def)
  then show ?thesis unfolding registered_iff by blast
qed

lemma consistent_inc [simp]: "consistent p ver (snd (inc r ls v s)) = consistent p ver s"
  by (simp add: consistent_def)

lemma toCounter_result:
  assumes "toCounter ev s = (Return (CounterRef r), s1)"
  shows "(eventName ev, Some r) \<in> set (counters s1)"
proof (cases "truthy (getProp (counters s) (eventName ev))")
  case True
  with assms show ?thesis by (auto simp: toCounter_cached dest: getProp_CounterRef)
next
  case miss: False
  show ?thesis
  proof (cases "validateMetricName (metricName (prefix s) (eventName ev))")
    case False
    with miss assms show ?thesis by (simp add: toCounter_invalid)
  next
    case valid: True
    show ?thesis
    proof (cases "metricName (prefix s) (eventName ev) \<in> set (map fst (registerMetrics s))")
      case True
      with miss valid assms show ?thesis by (simp add: toCounter_duplicate)
    next
      case False
      with miss valid assms have "getProp (counters s1) (eventName ev) = CounterRef r"
        by (auto simp: toCounter_created getProp_setProp_Some)
      then show ?thesis by (rule getProp_CounterRef)
    qed
  qed
qed

lemma toCounter_keeps:
  assumes "consistent p ver s"
  shows "consistent p ver (snd (toCounter ev s)) \<and>
         set (registered s) \<subseteq> set (registered (snd (toCounter ev s)))"
proof (cases "truthy (getProp (counters s) (eventName ev))")
  case True
  with assms show ?thesis by (simp add: toCounter_cached)
next
  case miss: False
  show ?thesis
  proof (cases "validateMetricName (metricName (prefix s) (eventName ev))")
    case False
    with miss assms show ?thesis
      by (simp add: toCounter_invalid consistent_def counterRefs_setNull)
  next
    case valid: True
    show ?thesis
    proof (cases "metricName (prefix s) (eventName ev) \<in> set (map fst (registerMetrics s))")
      case True
      with miss valid assms show ?thesis by (simp add: toCounter_duplicate)
    next
      case False
      let ?m = "\<lparr>mType = Counter, mName = metricName (prefix s) (eventName ev),
             mHelp = ''Total number of '' @ eventName ev @ '' events.'',
             mLabelNames = map fst (toLabels (includesLabels s) ev),
             hashMap = [(toLabels (includesLabels s) ev, 0)]\<rparr>"
      let ?t = "s\<lparr>heap := heap s @ [?m],
         registerMetrics := registerMetrics s @ [(metricName (prefix s) (eventName ev), length (heap s))],
         counters := setProp (counters s) (eventName ev) (Some (length (heap s)))\<rparr>"
      from miss valid False have t: "snd (toCounter ev s) = ?t"
        by (simp add: toCounter_created)
      from assms have refs: "counterRefs ?t"
        by (intro counterRefs_new) (simp_all add: consistent_def)
      from assms False refs have "consistent p ver ?t"
        by (simp add: consistent_def)
      moreover have "set (registered s) \<subseteq> set (registered ?t)"
        by (rule registered_grows [where hs = "[?m]"]) auto
      ultimately show ?thesis by (simp only: t)
    qed
  qed
qed

lemma onEventBusEvent_keeps:
  assumes "consistent p ver s"
  shows "consistent p ver (snd (onEventBusEvent ev s)) \<and>
         (mType m = Gauge \<longrightarrow> m \<in> set (registered s) \<longrightarrow>
            m \<in> set (registered (snd (onEventBusEvent ev s))))"
proof -
  obtain res s1 where tc: "toCounter ev s = (res, s1)" by (cases "toCounter ev s")
  from toCounter_keeps [OF assms, of ev] tc
  have s1: "consistent p ver s1" and sub: "set (registered s) \<subseteq> set (registered s1)" by simp_all
  show ?thesis
  proof (cases res)
    case (Throw e)
    with tc s1 sub show ?thesis by (auto simp: onEventBusEvent_def)
  next
    case (Return c)
    show ?thesis
    proof (cases c)
      case (CounterRef r)
      from toCounter_result [of ev s r s1] tc Return CounterRef
      have "(eventName ev, Some r) \<in> set (counters s1)" by simp
      with s1 have r: "r < length (heap s1) \<and> mType (heap s1 ! r) = Counter"
        by (auto simp: consistent_def dest: counterRefs_ref)
      have ev: "snd (onEventBusEvent ev s) = snd (inc r [] 1 s1)"
        using tc Return CounterRef by (simp add: onEventBusEvent_def truthy_def)
      show ?thesis
        unfolding ev using s1 sub r registered_inc [of m s1 r "[]" 1] by auto
    qed (use tc Return s1 sub in \<open>auto simp: onEventBusEvent_def truthy_def\<close>)
  qed
qed

lemma runCacheListener_consistent:
  assumes "consistent p ver s"
  shows "consistent p ver (snd (runCacheListener l s)) \<and>
         (mType m = Gauge \<longrightarrow> m \<in> set (registered s) \<longrightarrow>
            m \<in> set (registered (snd (runCacheListener l s))))"
proof (cases "getProp (counters s) (cacheKey l)")
  case (CounterRef r)
  then have "(cacheKey l, Some r) \<in> set (counters s)" by (rule getProp_CounterRef)
  with assms have r: "r < length (heap s) \<and> mType (heap s ! r) = Counter"
    by (auto simp: consistent_def dest: counterRefs_ref)
  show ?thesis
    using CounterRef assms r registered_inc [of m s r "[]" 1]
    by (auto simp: runCacheListener_def)
qed (use assms in \<open>auto simp: runCacheListener_def\<close>)


lemma consistent_simps [simp]:
  "consistent p ver (s\<lparr>app := a\<rparr>) = consistent p ver s"
  "consistent p ver (s\<lparr>eventBusListeners := b\<rparr>) = consistent p ver s"
  "consistent p ver (s\<lparr>cacheServiceListeners := c\<rparr>) = consistent p ver s"
  "consistent p ver (s\<lparr>includesMetrics := f\<rparr>) = consistent p ver s"
  "consistent p ver (s\<lparr>includesLabels := l\<rparr>) = consistent p ver s"
  by (simp_all add: consistent_def)

lemma eventBusEmit_keeps:
  assumes "consistent p ver s"
  shows "consistent p ver (snd (eventBusEmit topic ev s))"
    and "mType m = Gauge \<Longrightarrow> m \<in> set (registered s) \<Longrightarrow>
         m \<in> set (registered (snd (eventBusEmit topic ev s)))"
proof -
  show "consistent p ver (snd (eventBusEmit topic ev s))"
    unfolding eventBusEmit_def
    by (rule steps_preserve [where P = "consistent p ver", OF _ assms])
       (auto simp: onEventBusEvent_keeps)
next
  assume m: "mType m = Gauge" "m \<in> set (registered s)"
  have "consistent p ver (snd (eventBusEmit topic ev s)) \<and>
        m \<in> set (registered (snd (eventBusEmit topic ev s)))"
    unfolding eventBusEmit_def
  proof (rule steps_preserve [where P = "\<lambda>t. consistent p ver t \<and> m \<in> set (registered t)"])
    show "consistent p ver s \<and> m \<in> set (registered s)" using assms m by simp
  next
    fix a t
    assume "a \<in> set (map (\<lambda>(t, l). onEventBusEvent ev)
                (filter (\<lambda>(t, l). t = topic) (eventBusListeners s)))"
      and "consistent p ver t \<and> m \<in> set (registered t)"
    then show "consistent p ver (snd (a t)) \<and> m \<in> set (registered (snd (a t)))"
      using onEventBusEvent_keeps [of p ver t ev m] m(1) by auto
  qed
  then show "m \<in> set (registered (snd (eventBusEmit topic ev s)))" by simp
qed

lemma cacheServiceEmit_consistent:
  assumes "consistent p ver s"
  shows "consistent p ver (snd (cacheServiceEmit topic s))"
    and "mType m = Gauge \<Longrightarrow> m \<in> set (registered s) \<Longrightarrow>
         m \<in> set (registered (snd (cacheServiceEmit topic s)))"
proof -
  show "consistent p ver (snd (cacheServiceEmit topic s))"
    unfolding cacheServiceEmit_def
    by (rule steps_preserve [where P = "consistent p ver", OF _ assms])
       (auto simp: runCacheListener_consistent)
next
  assume m: "mType m = Gauge" "m \<in> set (registered s)"
  have "consistent p ver (snd (cacheServiceEmit topic s)) \<and>
        m \<in> set (registered (snd (cacheServiceEmit topic s)))"
    unfolding cacheServiceEmit_def
  proof (rule steps_preserve [where P = "\<lambda>t. consistent p ver t \<and> m \<in> set (registered t)"])
    show "consistent p ver s \<and> m \<in> set (registered s)" using assms m by simp
  next
    fix a t
    assume "a \<in> set (map (\<lambda>(t, l). runCacheListener l)
                (filter (\<lambda>(t, l). t = topic) (cacheServiceListeners s)))"
      and "consistent p ver t \<and> m \<in> set (registered t)"
    then show "consistent p ver (snd (a t)) \<and> m \<in> set (registered (snd (a t)))"
      using runCacheListener_consistent [of p ver t _ m] m(1) by auto
  qed
  then show "m \<in> set (registered (snd (cacheServiceEmit topic s)))" by simp
qed

lemma toggles_keep [simp]:
  "consistent p ver (enableMetric c s) = consistent p ver s"
  "consistent p ver (disableMetric c s) = consistent p ver s"
  "consistent p ver (disableAllMetrics s) = consistent p ver s"
  "registered (enableMetric c s) = registered s"
  "registered (disableMetric c s) = registered s"
  "registered (disableAllMetrics s) = registered s"
  by (simp_all add: enableMetric_def disableMetric_def disableAllMetrics_def)


lemma newMetric_cases:
  "(nm \<notin> set (map fst (registerMetrics s)) \<and>
    newMetric ty nm hp lns s =
      (Return (length (heap s)),
       s\<lparr>heap := heap s @ [\<lparr>mType = ty, mName = nm, mHelp = hp, mLabelNames = lns, hashMap = []\<rparr>],
         registerMetrics := registerMetrics s @ [(nm, length (heap s))]\<rparr>)) \<or>
   (\<exists>e. newMetric ty nm hp lns s = (Throw e, s))"
  by (simp add: newMetric_def)

lemma counterRefs_append:
  assumes "counterRefs s"
  shows "counterRefs (s\<lparr>heap := heap s @ hs, registerMetrics := rs\<rparr>)"
  unfolding counterRefs_iff
proof (intro allI impI)
  fix k r
  assume "(k, Some r) \<in> set (counters (s\<lparr>heap := heap s @ hs, registerMetrics := rs\<rparr>))"
  then have "(k, Some r) \<in> set (counters s)" by simp
  from counterRefs_ref [OF assms this]
  show "r < length (heap (s\<lparr>heap := heap s @ hs, registerMetrics := rs\<rparr>)) \<and>
        mType (heap (s\<lparr>heap := heap s @ hs, registerMetrics := rs\<rparr>) ! r) = Counter"
    by (simp add: nth_append)
qed

lemma gaugeSet_keeps [simp]:
  "map mType (heap (snd (gaugeSet r ls v s))) = map mType (heap s)"
  "counters (snd (gaugeSet r ls v s)) = counters s"
  "registerMetrics (snd (gaugeSet r ls v s)) = registerMetrics s"
  "prefix (snd (gaugeSet r ls v s)) = prefix s"
  "n8nVersion (snd (gaugeSet r ls v s)) = n8nVersion s"
  by (simp_all add: gaugeSet_def map_update list_update_same_conv)

lemma consistent_gaugeSet [simp]:
  "consistent p ver (snd (gaugeSet r ls v s)) = consistent p ver s"
  using counterRefs_cong [of "snd (gaugeSet r ls v s)" s]
  by (simp add: consistent_def)

lemma initN8nVersionMetric_consistent:
  assumes "consistent p ver s"
  shows "consistent p ver (snd (initN8nVersionMetric s))"
proof (cases "n8nVersion s")
  case None
  with assms show ?thesis by (simp add: initN8nVersionMetric_def)
next
  case (Some v)
  from newMetric_cases [of "prefix s @ ''version_info''" s Gauge "''n8n version info.''"
      "[''version'', ''major'', ''minor'', ''patch'']"]
  show ?thesis
  proof (elim disjE conjE exE)
    fix e
    assume "newMetric Gauge (prefix s @ ''version_info'') ''n8n version info.''
              [''version'', ''major'', ''minor'', ''patch''] s = (Throw e, s)"
    with Some assms show ?thesis by (simp add: initN8nVersionMetric_def)
  next
    let ?t = "s\<lparr>heap := heap s @ [\<lparr>mType = Gauge, mName = prefix s @ ''version_info'',
                    mHelp = ''n8n version info.'',
                    mLabelNames = [''version'', ''major'', ''minor'', ''patch''], hashMap = []\<rparr>],
                registerMetrics := registerMetrics s @ [(prefix s @ ''version_info'', length (heap s))]\<rparr>"
    assume fresh: "prefix s @ ''version_info'' \<notin> set (map fst (registerMetrics s))"
      and new: "newMetric Gauge (prefix s @ ''version_info'') ''n8n version info.''
              [''version'', ''major'', ''minor'', ''patch''] s = (Return (length (heap s)), ?t)"
    from assms have "counterRefs ?t"
      by (intro counterRefs_append) (simp add: consistent_def)
    with assms fresh have "consistent p ver ?t"
      by (simp add: consistent_def)
    with Some new show ?thesis
      by (simp add: initN8nVersionMetric_def)
  qed
qed

lemma cacheCounter_consistent:
  assumes "consistent p ver s"
  shows "consistent p ver (snd (cacheCounter kind key topic l s))"
proof -
  define nm where "nm = prefix s @ ''cache_'' @ kind @ ''_total''"
  define hp where "hp = ''Total number of cache '' @ kind @ ''.''"
  have cc: "cacheCounter kind key topic l s =
     (case newMetric Counter nm hp [''cache''] s of
        (Throw e, s1) \<Rightarrow> (Throw e, s1)
      | (Return c, s1) \<Rightarrow>
          (case inc c [] 0 (s1\<lparr>counters := setProp (counters s1) key (Some c)\<rparr>) of
             (Throw e, s2) \<Rightarrow> (Throw e, s2)
           | (Return _, s2) \<Rightarrow>
               (Return (),
                s2\<lparr>cacheServiceListeners := cacheServiceListeners s2 @ [(topic, l)]\<rparr>)))"
    unfolding cacheCounter_def nm_def hp_def ..
  from newMetric_cases [of nm s Counter hp "[''cache'']"]
  show ?thesis
  proof (elim disjE conjE exE)
    fix e
    assume "newMetric Counter nm hp [''cache''] s = (Throw e, s)"
    with assms show ?thesis by (simp add: cc)
  next
    let ?m = "\<lparr>mType = Counter, mName = nm, mHelp = hp, mLabelNames = [''cache''], hashMap = []\<rparr>"
    let ?t = "s\<lparr>heap := heap s @ [?m], registerMetrics := registerMetrics s @ [(nm, length (heap s))]\<rparr>"
    let ?u = "s\<lparr>heap := heap s @ [?m], registerMetrics := registerMetrics s @ [(nm, length (heap s))],
                counters := setProp (counters s) key (Some (length (heap s)))\<rparr>"
    assume fresh: "nm \<notin> set (map fst (registerMetrics s))"
      and new: "newMetric Counter nm hp [''cache''] s = (Return (length (heap s)), ?t)"
    from assms have "counterRefs ?u"
      by (intro counterRefs_new) (simp_all add: consistent_def)
    with assms fresh have u: "consistent p ver ?u"
      by (simp add: consistent_def)
    obtain res w where w: "inc (length (heap s)) [] 0 ?u = (res, w)"
      by (cases "inc (length (heap s)) [] 0 ?u")
    with inc_no_labels [of "length (heap s)" 0 ?u] have res: "res = Return ()" by simp
    from w u consistent_inc [of p ver "length (heap s)" "[]" 0 ?u] have "consistent p ver w" by simp
    moreover have "snd (cacheCounter kind key topic l s) =
            w\<lparr>cacheServiceListeners := cacheServiceListeners w @ [(topic, l)]\<rparr>"
      using w res by (simp add: cc new)
    ultimately show ?thesis by simp
  qed
qed

lemma initCacheMetrics_consistent:
  assumes "consistent p ver s"
  shows "consistent p ver (snd (initCacheMetrics s))"
proof (cases "includesMetrics s Cache")
  case False
  with assms show ?thesis by (simp add: initCacheMetrics_def)
next
  case True
  have "consistent p ver (snd (steps
          [cacheCounter ''hits'' ''cacheHitsTotal'' ''metrics.cache.hit'' IncCacheHitsTotal,
           cacheCounter ''misses'' ''cacheMissesTotal'' ''metrics.cache.miss'' IncCacheMissesTotal,
           cacheCounter ''updates'' ''cacheUpdatesTotal'' ''metrics.cache.update'' IncCacheUpdatesTotal]
          s))"
    by (rule steps_preserve [where P = "consistent p ver", OF _ assms])
       (auto simp: cacheCounter_consistent)
  with True show ?thesis by (simp add: initCacheMetrics_def)
qed

lemma registerDefault_consistent:
  assumes "consistent p ver s"
  shows "consistent p ver (snd (registerDefault n s))"
  using newMetric_cases [of n s Collected "''default metric''" "[]"]
proof (elim disjE conjE exE)
  fix e
  assume "newMetric Collected n ''default metric'' [] s = (Throw e, s)"
  with assms show ?thesis by (simp add: registerDefault_def)
next
  let ?t = "s\<lparr>heap := heap s @ [\<lparr>mType = Collected, mName = n, mHelp = ''default metric'',
                    mLabelNames = [], hashMap = []\<rparr>],
                registerMetrics := registerMetrics s @ [(n, length (heap s))]\<rparr>"
  assume fresh: "n \<notin> set (map fst (registerMetrics s))"
    and new: "newMetric Collected n ''default metric'' [] s = (Return (length (heap s)), ?t)"
  from assms have "counterRefs ?t"
    by (intro counterRefs_append) (simp add: consistent_def)
  with assms fresh have "consistent p ver ?t"
    by (simp add: consistent_def)
  with new show ?thesis by (simp add: registerDefault_def)
qed

lemma collectDefaultMetrics_consistent:
  assumes "consistent p ver s"
  shows "consistent p ver (snd (collectDefaultMetrics s))"
  unfolding collectDefaultMetrics_def
  by (rule steps_preserve [where P = "consistent p ver", OF _ assms])
     (auto simp: registerDefault_consistent)

lemma init_consistent:
  assumes "consistent p ver s"
  shows "consistent p ver (snd (init s))"
  unfolding init_def
proof (rule steps_preserve [where P = "consistent p ver", OF _ assms])
  fix a t
  assume a: "a \<in> set [registerClear, initDefaultMetrics, initN8nVersionMetric, initCacheMetrics,
        initEventBusMetrics, initApiMetrics, mountMetricsEndpoint]"
    and t: "consistent p ver t"
  from t have "consistent p ver (snd (registerClear t))"
    by (simp add: registerClear_def consistent_def counterRefs_def)
  moreover from t collectDefaultMetrics_consistent [OF t]
  have "consistent p ver (snd (initDefaultMetrics t))"
    by (simp add: initDefaultMetrics_def)
  moreover from t have "consistent p ver (snd (initEventBusMetrics t))"
    by (simp add: initEventBusMetrics_def)
  moreover from t have "consistent p ver (snd (initApiMetrics t))"
    by (simp add: initApiMetrics_def)
  moreover from t have "consistent p ver (snd (mountMetricsEndpoint t))"
    by (simp add: mountMetricsEndpoint_def)
  ultimately show "consistent p ver (snd (a t))"
    using a initN8nVersionMetric_consistent [OF t] initCacheMetrics_consistent [OF t] by auto
qed

lemma init_registers_version:
  assumes "n8nVersion s = Some v" and "validateMetricName (prefix s @ ''version_info'')"
    and "includesMetrics s Default \<longrightarrow> prefix s @ ''version_info'' \<notin> set defaultMetricNames"
  shows "fst (init s) = Return () \<and> versionGaugeObject (prefix s) v \<in> set (registered (snd (init s)))"
proof -
  let ?t1 = "afterDefaults s"
  let ?t2 = "?t1\<lparr>heap := heap ?t1 @ [versionGaugeObject (prefix ?t1) v],
        registerMetrics := registerMetrics ?t1 @ [(prefix ?t1 @ ''version_info'', length (heap ?t1))]\<rparr>"
  have t2: "initN8nVersionMetric ?t1 = (Return (), ?t2)"
    by (rule initN8nVersionMetric_ok) (use assms in simp_all)
  have g2: "versionGaugeObject (prefix s) v \<in> set (registered ?t2)"
    unfolding registered_iff
    by (rule exI [of _ "prefix s @ ''version_info''"], rule exI [of _ "length (heap ?t1)"]) simp
  obtain t3 where t3: "initCacheMetrics ?t2 = (Return (), t3)"
    and g3: "versionGaugeObject (prefix s) v \<in> set (registered t3)"
  proof (cases "includesMetrics s Cache")
    case False
    with that [of ?t2] g2 show ?thesis by (simp add: initCacheMetrics_def)
  next
    case True
    let ?t3 = "?t2\<lparr>heap := heap ?t2 @
           [cacheCounterObject (prefix ?t2) ''hits'', cacheCounterObject (prefix ?t2) ''misses'',
            cacheCounterObject (prefix ?t2) ''updates''],
         registerMetrics := registerMetrics ?t2 @
           [(prefix ?t2 @ ''cache_hits_total'', length (heap ?t2)),
            (prefix ?t2 @ ''cache_misses_total'', Suc (length (heap ?t2))),
            (prefix ?t2 @ ''cache_updates_total'', Suc (Suc (length (heap ?t2))))],
         counters :=
           setProp (setProp (setProp (counters ?t2) ''cacheHitsTotal'' (Some (length (heap ?t2))))
             ''cacheMissesTotal'' (Some (Suc (length (heap ?t2)))))
             ''cacheUpdatesTotal'' (Some (Suc (Suc (length (heap ?t2))))),
         cacheServiceListeners := cacheServiceListeners ?t2 @
           [(''metrics.cache.hit'', IncCacheHitsTotal), (''metrics.cache.miss'', IncCacheMissesTotal),
            (''metrics.cache.update'', IncCacheUpdatesTotal)]\<rparr>"
    have ok: "initCacheMetrics ?t2 = (Return (), ?t3)"
      by (rule initCacheMetrics_ok)
         (use True valid_cache_names [OF assms(2)] default_names_no_cache [of "prefix s"]
           in simp_all)
    have "set (registered ?t2) \<subseteq> set (registered ?t3)"
      by (rule registered_grows
            [where hs = "[cacheCounterObject (prefix ?t2) ''hits'', cacheCounterObject (prefix ?t2) ''misses'',
                          cacheCounterObject (prefix ?t2) ''updates'']"]) auto
    with g2 that [OF ok] show ?thesis by blast
  qed
  obtain t4 where t4: "steps [initEventBusMetrics, initApiMetrics, mountMetricsEndpoint] t3 = (Return (), t4)"
    and heap4: "heap t4 = heap t3" and reg4: "registerMetrics t4 = registerMetrics t3"
    using init_tail [of t3] by blast
  have init: "init s = (Return (), t4)"
    unfolding init_head using t2 t3 t4 by simp
  from registered_cong [OF heap4 reg4] g3 show ?thesis by (simp add: init)
qed

lemma perform_consistent:
  assumes "consistent p ver s"
  shows "consistent p ver (perform c s)"
  using assms eventBusEmit_keeps(1) [OF assms] cacheServiceEmit_consistent(1) [OF assms]
    init_consistent [OF assms]
  by (cases c) (simp_all add: perform_def)

lemma perform_keeps_gauge:
  assumes "consistent p ver s" and "mType m = Gauge" and "m \<in> set (registered s)"
    and "isDelivery c \<or> isToggle c"
  shows "m \<in> set (registered (perform c s))"
proof (cases c)
  case Init
  with assms(4) show ?thesis by (simp add: isDelivery_def isToggle_def)
next
  case (BusEvent ev)
  with eventBusEmit_keeps(2) [OF assms(1-3)] show ?thesis by (simp add: perform_def)
qed (use cacheServiceEmit_consistent(2) [OF assms(1-3)] assms(3) in \<open>simp_all add: perform_def\<close>)

lemma newService_consistent: "consistent pfx ver (newService pfx ver cats fl)"
  by (simp add: consistent_def newService_def counterRefs_def map_filter_simps)

lemma reachable_consistent: "consistent pfx ver (performAll cs (newService pfx ver cats fl))"
  by (rule performAll_preserve [where P = "consistent pfx ver"])
     (simp_all add: perform_consistent newService_consistent)

lemma numbered_mem:
  "(nm, r) \<in> set (numbered ns n) \<Longrightarrow> n \<le> r \<and> r < n + length ns \<and> ns ! (r - n) = nm"
proof (induction ns arbitrary: n)
  case Nil
  then show ?case by simp
next
  case (Cons x xs)
  from Cons.prems consider "nm = x \<and> r = n" | "(nm, r) \<in> set (numbered xs (Suc n))" by auto
  then show ?case
  proof cases
    case 1
    then show ?thesis by simp
  next
    case 2
    from Cons.IH [OF 2] show ?thesis by (auto simp: Suc_diff_le)
  qed
qed

lemma afterDefaults_names:
  "set (map mName (registered (afterDefaults s))) \<subseteq> set defaultMetricNames"
proof (cases "includesMetrics s Default")
  case False
  then show ?thesis by (simp add: afterDefaults_def registered_def)
next
  case True
  show ?thesis
  proof
    fix x
    assume "x \<in> set (map mName (registered (afterDefaults s)))"
    then obtain m where m: "m \<in> set (registered (afterDefaults s))" and x: "x = mName m" by auto
    from m True obtain nm r where
      nr: "(nm, r) \<in> set (numbered defaultMetricNames (length (heap s)))"
      and mr: "(heap s @ map defaultObject defaultMetricNames) ! r = m"
      unfolding registered_iff by (auto simp: afterDefaults_def)
    from numbered_mem [OF nr] have r: "length (heap s) \<le> r"
      "r - length (heap s) < length defaultMetricNames"
      "defaultMetricNames ! (r - length (heap s)) = nm"
      by auto
    with mr have "m = defaultObject nm" by (simp add: nth_append)
    with x r show "x \<in> set defaultMetricNames"
      by (auto simp: defaultObject_def)
  qed
qed

lemma gaugeSet_heap:
  "length (heap (snd (gaugeSet r ls v s))) = length (heap s)"
  "i \<noteq> r \<Longrightarrow> heap (snd (gaugeSet r ls v s)) ! i = heap s ! i"
  "mName (heap (snd (gaugeSet r ls v s)) ! i) = mName (heap s ! i)"
  "includesMetrics (snd (gaugeSet r ls v s)) = includesMetrics s"
  by (auto simp: gaugeSet_def nth_list_update)

lemma initN8nVersionMetric_names:
  "set (map mName (registered (snd (initN8nVersionMetric t)))) \<subseteq>
     set (map mName (registered t)) \<union> {prefix t @ ''version_info''} \<and>
   includesMetrics (snd (initN8nVersionMetric t)) = includesMetrics t"
proof (cases "n8nVersion t")
  case None
  then have "snd (initN8nVersionMetric t) = t" by (simp add: initN8nVersionMetric_def)
  then show ?thesis by auto
next
  case (Some v)
  from newMetric_cases [of "prefix t @ ''version_info''" t Gauge "''n8n version info.''"
      "[''version'', ''major'', ''minor'', ''patch'']"]
  show ?thesis
  proof (elim disjE conjE exE)
    fix e
    assume "newMetric Gauge (prefix t @ ''version_info'') ''n8n version info.''
              [''version'', ''major'', ''minor'', ''patch''] t = (Throw e, t)"
    with Some have "snd (initN8nVersionMetric t) = t" by (simp add: initN8nVersionMetric_def)
    then show ?thesis by auto
  next
    let ?u = "t\<lparr>heap := heap t @ [\<lparr>mType = Gauge, mName = prefix t @ ''version_info'',
                    mHelp = ''n8n version info.'',
                    mLabelNames = [''version'', ''major'', ''minor'', ''patch''], hashMap = []\<rparr>],
                registerMetrics := registerMetrics t @ [(prefix t @ ''version_info'', length (heap t))]\<rparr>"
    assume new: "newMetric Gauge (prefix t @ ''version_info'') ''n8n version info.''
              [''version'', ''major'', ''minor'', ''patch''] t = (Return (length (heap t)), ?u)"
    let ?w = "snd (gaugeSet (length (heap t)) (versionLabels v) 1 ?u)"
    from Some new have w: "snd (initN8nVersionMetric t) = ?w"
      by (simp add: initN8nVersionMetric_def versionLabels_def)
    have names: "mName m \<in> set (map mName (registered t)) \<union> {prefix t @ ''version_info''}"
      if "m \<in> set (registered ?w)" for m
    proof -
      from that obtain nm r where nr: "(nm, r) \<in> set (registerMetrics ?w)"
        and r: "r < length (heap ?w)" and m: "heap ?w ! r = m"
        unfolding registered_iff by blast
      from nr have nr': "(nm, r) \<in> set (registerMetrics t) \<or> r = length (heap t)" by auto
      from r have r': "r < Suc (length (heap t))" by (simp add: gaugeSet_heap)
      show ?thesis
      proof (cases "r < length (heap t)")
        case True
        with m have "heap t ! r = m" by (simp add: gaugeSet_heap nth_append)
        with True nr' have "m \<in> set (registered t)" unfolding registered_iff by blast
        then show ?thesis by simp
      next
        case False
        with r' have "r = length (heap t)" by simp
        with m gaugeSet_heap(3) [of "length (heap t)" "versionLabels v" 1 ?u "length (heap t)"]
        have "mName m = prefix t @ ''version_info''" by simp
        then show ?thesis by simp
      qed
    qed
    have "includesMetrics ?w = includesMetrics t" by (simp add: gaugeSet_heap)
    with names show ?thesis unfolding w by auto
  qed
qed

lemma init_without_cache:
  assumes "\<not> includesMetrics s Cache"
  shows "set (map mName (registered (snd (init s)))) \<subseteq>
           set defaultMetricNames \<union> {prefix s @ ''version_info''}"
proof -
  let ?A = "set defaultMetricNames \<union> {prefix s @ ''version_info''}"
  let ?t1 = "afterDefaults s"
  let ?t2 = "snd (initN8nVersionMetric ?t1)"
  let ?P = "\<lambda>t. set (map mName (registered t)) \<subseteq> ?A \<and> \<not> includesMetrics t Cache"
  from initN8nVersionMetric_names [of ?t1] afterDefaults_names [of s]
  have "set (map mName (registered ?t2)) \<subseteq> ?A"
    unfolding afterDefaults_fields by blast
  moreover from initN8nVersionMetric_names [of ?t1] assms
  have "\<not> includesMetrics ?t2 Cache" by simp
  ultimately have t2: "?P ?t2" by blast
  have rest: "?P (snd (steps [initCacheMetrics, initEventBusMetrics, initApiMetrics, mountMetricsEndpoint] ?t2))"
  proof (rule steps_preserve [where P = ?P, OF _ t2])
    fix a t
    assume "a \<in> set [initCacheMetrics, initEventBusMetrics, initApiMetrics, mountMetricsEndpoint]"
      and "?P t"
    then have "registered (snd (a t)) = registered t \<and>
               includesMetrics (snd (a t)) = includesMetrics t" and "?P t"
      by (auto simp: initCacheMetrics_def initEventBusMetrics_def initApiMetrics_def
          mountMetricsEndpoint_def)
    then show "?P (snd (a t))" by simp
  qed
  show ?thesis
    unfolding init_head steps_Cons_snd [of initN8nVersionMetric]
    using t2 rest by (simp split: result.splits)
qed

lemma afterDefaults_registry [simp]:
  "fst ` set (registerMetrics (afterDefaults s)) =
     (if includesMetrics s Default then set defaultMetricNames else {})"
  using afterDefaults_fields(8) [of s, THEN arg_cong, of set]
  by (simp del: afterDefaults_fields)

section \<open>Flags and listeners\<close>

lemma steps_commute:
  assumes "\<And>a t. a \<in> set as \<Longrightarrow> I t \<Longrightarrow> a (u t) = (fst (a t), u (snd (a t))) \<and> I (snd (a t))"
    and "I s"
  shows "steps as (u s) = (fst (steps as s), u (snd (steps as s)))"
  using assms
proof (induction as arbitrary: s)
  case Nil
  then show ?case by simp
next
  case (Cons a as)
  obtain r s' where a: "a s = (r, s')" by (cases "a s")
  from Cons.prems(1) [of a s] Cons.prems(2) a
  have au: "a (u s) = (r, u s')" and s': "I s'" by simp_all
  show ?case
  proof (cases r)
    case (Return x)
    from Cons.IH [of s'] Cons.prems(1) s'
    have "steps as (u s') = (fst (steps as s'), u (snd (steps as s')))" by simp
    with a au Return show ?thesis by simp
  next
    case (Throw e)
    with a au show ?thesis by simp
  qed
qed

lemma inc_cats: "inc r ls v (s\<lparr>includesMetrics := f\<rparr>) =
    (fst (inc r ls v s), (snd (inc r ls v s))\<lparr>includesMetrics := f\<rparr>)"
  by (simp add: inc_def)

lemma toCounter_cats:
  "toCounter ev (s\<lparr>includesMetrics := f\<rparr>) =
     (fst (toCounter ev s), (snd (toCounter ev s))\<lparr>includesMetrics := f\<rparr>)"
proof (cases "truthy (getProp (counters s) (eventName ev))")
  case True
  then show ?thesis by (simp add: toCounter_cached)
next
  case miss: False
  show ?thesis
  proof (cases "validateMetricName (metricName (prefix s) (eventName ev))")
    case False
    with miss show ?thesis by (simp add: toCounter_invalid)
  next
    case valid: True
    show ?thesis
    proof (cases "metricName (prefix s) (eventName ev) \<in> set (map fst (registerMetrics s))")
      case True
      with miss valid show ?thesis by (simp add: toCounter_duplicate)
    next
      case False
      with miss valid show ?thesis by (simp add: toCounter_created)
    qed
  qed
qed

lemma onEventBusEvent_cats:
  "onEventBusEvent ev (s\<lparr>includesMetrics := f\<rparr>) =
     (fst (onEventBusEvent ev s), (snd (onEventBusEvent ev s))\<lparr>includesMetrics := f\<rparr>)"
proof -
  obtain res s1 where tc: "toCounter ev s = (res, s1)" by (cases "toCounter ev s")
  with toCounter_cats [where ev = ev and s = s and f = f]
  have tc': "toCounter ev (s\<lparr>includesMetrics := f\<rparr>) = (res, s1\<lparr>includesMetrics := f\<rparr>)" by simp
  show ?thesis
    by (simp add: onEventBusEvent_def tc tc' inc_cats split: result.splits jsValue.splits)
qed

lemma runCacheListener_cats:
  "runCacheListener l (s\<lparr>includesMetrics := f\<rparr>) =
     (fst (runCacheListener l s), (snd (runCacheListener l s))\<lparr>includesMetrics := f\<rparr>)"
  by (simp add: runCacheListener_def inc_cats split: jsValue.splits)

lemma delivery_cats:
  assumes "isDelivery c"
  shows "perform c (s\<lparr>includesMetrics := f\<rparr>) = (perform c s)\<lparr>includesMetrics := f\<rparr>"
proof -
  have bus: "eventBusEmit topic ev (s\<lparr>includesMetrics := f\<rparr>) =
      (fst (eventBusEmit topic ev s), (snd (eventBusEmit topic ev s))\<lparr>includesMetrics := f\<rparr>)"
    for topic ev
  proof -
    have l: "eventBusListeners (s\<lparr>includesMetrics := f\<rparr>) = eventBusListeners s" by simp
    show ?thesis
    unfolding eventBusEmit_def l
    by (rule steps_commute [where I = "\<lambda>t. True" and u = "\<lambda>t. t\<lparr>includesMetrics := f\<rparr>"])
       (auto simp: onEventBusEvent_cats)
  qed
  have cache: "cacheServiceEmit topic (s\<lparr>includesMetrics := f\<rparr>) =
      (fst (cacheServiceEmit topic s), (snd (cacheServiceEmit topic s))\<lparr>includesMetrics := f\<rparr>)"
    for topic
  proof -
    have l: "cacheServiceListeners (s\<lparr>includesMetrics := f\<rparr>) = cacheServiceListeners s" by simp
    show ?thesis
    unfolding cacheServiceEmit_def l
    by (rule steps_commute [where I = "\<lambda>t. True" and u = "\<lambda>t. t\<lparr>includesMetrics := f\<rparr>"])
       (auto simp: runCacheListener_cats)
  qed
  from assms show ?thesis
    by (cases c) (simp_all add: perform_def isDelivery_def bus cache)
qed

lemma delivery_keeps_cats:
  assumes "isDelivery c"
  shows "includesMetrics (perform c s) = includesMetrics s"
proof -
  have "perform c (s\<lparr>includesMetrics := includesMetrics s\<rparr>) =
        (perform c s)\<lparr>includesMetrics := includesMetrics s\<rparr>"
    by (rule delivery_cats [OF assms])
  then have "perform c s = (perform c s)\<lparr>includesMetrics := includesMetrics s\<rparr>" by simp
  then have "includesMetrics (perform c s) =
             includesMetrics ((perform c s)\<lparr>includesMetrics := includesMetrics s\<rparr>)" by simp
  then show ?thesis by simp
qed

lemma disableAllMetrics_eq:
  "disableAllMetrics s = s\<lparr>includesMetrics := (\<lambda>c. False)\<rparr>"
proof -
  have "(\<lambda>c. if c = Logs then False else if c = Cache then False else if c = Api then False
          else if c = Default then False else includesMetrics s c) = (\<lambda>c. False)"
  proof (rule ext)
    fix c show "(if c = Logs then False else if c = Cache then False else if c = Api then False
          else if c = Default then False else includesMetrics s c) = False"
      by (cases c) simp_all
  qed
  then show ?thesis
    by (simp add: disableAllMetrics_def disableMetric_def fun_upd_def)
qed

lemma toggle_commutes:
  assumes "isToggle t" and "isDelivery c"
  shows "perform c (perform t s) = perform t (perform c s)"
  using assms(1) delivery_cats [OF assms(2)] delivery_keeps_cats [OF assms(2), of s]
  by (cases t)
     (simp_all add: isToggle_def perform_def enableMetric_def disableMetric_def disableAllMetrics_eq)

lemma newMetric_frame [simp]:
  "includesLabels (snd (newMetric ty nm hp lns s)) = includesLabels s"
  "includesMetrics (snd (newMetric ty nm hp lns s)) = includesMetrics s"
  "eventBusListeners (snd (newMetric ty nm hp lns s)) = eventBusListeners s"
  "cacheServiceListeners (snd (newMetric ty nm hp lns s)) = cacheServiceListeners s"
  by (simp_all add: newMetric_def)

lemma gaugeSet_frame [simp]:
  "includesLabels (snd (gaugeSet r ls v s)) = includesLabels s"
  "eventBusListeners (snd (gaugeSet r ls v s)) = eventBusListeners s"
  "cacheServiceListeners (snd (gaugeSet r ls v s)) = cacheServiceListeners s"
  by (simp_all add: gaugeSet_def)

lemma registerDefault_frame [simp]:
  "includesLabels (snd (registerDefault n s)) = includesLabels s"
proof -
  obtain r s1 where n: "newMetric Collected n ''default metric'' [] s = (r, s1)"
    by (cases "newMetric Collected n ''default metric'' [] s")
  with newMetric_frame(1) [of Collected n "''default metric''" "[]" s]
  have "includesLabels s1 = includesLabels s" by simp
  with n show ?thesis by (cases r) (simp_all add: registerDefault_def)
qed

lemma initN8nVersionMetric_frame [simp]:
  "includesLabels (snd (initN8nVersionMetric s)) = includesLabels s"
  "includesMetrics (snd (initN8nVersionMetric s)) = includesMetrics s"
  "eventBusListeners (snd (initN8nVersionMetric s)) = eventBusListeners s"
  "cacheServiceListeners (snd (initN8nVersionMetric s)) = cacheServiceListeners s"
proof -
  let ?new = "newMetric Gauge (prefix s @ ''version_info'') ''n8n version info.''
                [''version'', ''major'', ''minor'', ''patch''] s"
  obtain r s1 where n: "?new = (r, s1)" by (cases ?new)
  from n have s1: "includesLabels s1 = includesLabels s" "includesMetrics s1 = includesMetrics s"
    "eventBusListeners s1 = eventBusListeners s" "cacheServiceListeners s1 = cacheServiceListeners s"
    using newMetric_frame [of Gauge "prefix s @ ''version_info''" "''n8n version info.''"
        "[''version'', ''major'', ''minor'', ''patch'']" s]
    by simp_all
  have "includesLabels (snd (initN8nVersionMetric s)) = includesLabels s \<and>
        includesMetrics (snd (initN8nVersionMetric s)) = includesMetrics s \<and>
        eventBusListeners (snd (initN8nVersionMetric s)) = eventBusListeners s \<and>
        cacheServiceListeners (snd (initN8nVersionMetric s)) = cacheServiceListeners s"
    using n s1
    by (cases "n8nVersion s"; cases r)
       (simp_all add: initN8nVersionMetric_def gaugeSet_heap)
  then show "includesLabels (snd (initN8nVersionMetric s)) = includesLabels s"
    "includesMetrics (snd (initN8nVersionMetric s)) = includesMetrics s"
    "eventBusListeners (snd (initN8nVersionMetric s)) = eventBusListeners s"
    "cacheServiceListeners (snd (initN8nVersionMetric s)) = cacheServiceListeners s"
    by simp_all
qed

lemma cacheCounter_frame:
  "includesLabels (snd (cacheCounter kind key topic l s)) = includesLabels s \<and>
   includesMetrics (snd (cacheCounter kind key topic l s)) = includesMetrics s \<and>
   eventBusListeners (snd (cacheCounter kind key topic l s)) = eventBusListeners s \<and>
   (\<forall>u s'. cacheCounter kind key topic l s = (Return u, s') \<longrightarrow>
      cacheServiceListeners s' = cacheServiceListeners s @ [(topic, l)])"
proof -
  define nm where "nm = prefix s @ ''cache_'' @ kind @ ''_total''"
  define hp where "hp = ''Total number of cache '' @ kind @ ''.''"
  have cc: "cacheCounter kind key topic l s =
     (case newMetric Counter nm hp [''cache''] s of
        (Throw e, s1) \<Rightarrow> (Throw e, s1)
      | (Return c, s1) \<Rightarrow>
          (case inc c [] 0 (s1\<lparr>counters := setProp (counters s1) key (Some c)\<rparr>) of
             (Throw e, s2) \<Rightarrow> (Throw e, s2)
           | (Return _, s2) \<Rightarrow>
               (Return (),
                s2\<lparr>cacheServiceListeners := cacheServiceListeners s2 @ [(topic, l)]\<rparr>)))"
    unfolding cacheCounter_def nm_def hp_def ..
  obtain r s1 where n: "newMetric Counter nm hp [''cache''] s = (r, s1)"
    by (cases "newMetric Counter nm hp [''cache''] s")
  from n newMetric_frame [of Counter nm hp "[''cache'']" s]
  have s1: "includesLabels s1 = includesLabels s" "includesMetrics s1 = includesMetrics s"
    "eventBusListeners s1 = eventBusListeners s" "cacheServiceListeners s1 = cacheServiceListeners s"
    by simp_all
  show ?thesis
  proof (cases r)
    case (Throw e)
    with n s1 show ?thesis by (simp add: cc)
  next
    case (Return c)
    let ?u = "s1\<lparr>counters := setProp (counters s1) key (Some c)\<rparr>"
    obtain r2 w where w: "inc c [] 0 ?u = (r2, w)" by (cases "inc c [] 0 ?u")
    with inc_no_labels [of c 0 ?u] have r2: "r2 = Return ()" by simp
    from w inc_consts [of c "[]" 0 ?u] s1
    have "includesLabels w = includesLabels s" "includesMetrics w = includesMetrics s"
      "eventBusListeners w = eventBusListeners s" "cacheServiceListeners w = cacheServiceListeners s"
      by simp_all
    with n Return w r2 show ?thesis by (simp add: cc)
  qed
qed

lemma initCacheMetrics_frame:
  "includesLabels (snd (initCacheMetrics s)) = includesLabels s \<and>
   includesMetrics (snd (initCacheMetrics s)) = includesMetrics s \<and>
   eventBusListeners (snd (initCacheMetrics s)) = eventBusListeners s"
proof (cases "includesMetrics s Cache")
  case False
  then show ?thesis by (simp add: initCacheMetrics_def)
next
  case True
  let ?P = "\<lambda>t. includesLabels t = includesLabels s \<and> includesMetrics t = includesMetrics s \<and>
               eventBusListeners t = eventBusListeners s"
  have "?P (snd (steps
          [cacheCounter ''hits'' ''cacheHitsTotal'' ''metrics.cache.hit'' IncCacheHitsTotal,
           cacheCounter ''misses'' ''cacheMissesTotal'' ''metrics.cache.miss'' IncCacheMissesTotal,
           cacheCounter ''updates'' ''cacheUpdatesTotal'' ''metrics.cache.update'' IncCacheUpdatesTotal]
          s))"
    by (rule steps_preserve [where P = ?P]) (auto simp: cacheCounter_frame)
  with True show ?thesis by (simp add: initCacheMetrics_def)
qed

lemma initCacheMetrics_listeners:
  assumes "initCacheMetrics s = (Return u, t)"
  shows "cacheServiceListeners t =
           cacheServiceListeners s @
           (if includesMetrics s Cache
            then [(''metrics.cache.hit'', IncCacheHitsTotal), (''metrics.cache.miss'', IncCacheMissesTotal),
                  (''metrics.cache.update'', IncCacheUpdatesTotal)]
            else [])"
proof (cases "includesMetrics s Cache")
  case False
  with assms show ?thesis by (simp add: initCacheMetrics_def)
next
  case True
  let ?h = "cacheCounter ''hits'' ''cacheHitsTotal'' ''metrics.cache.hit'' IncCacheHitsTotal"
  let ?m = "cacheCounter ''misses'' ''cacheMissesTotal'' ''metrics.cache.miss'' IncCacheMissesTotal"
  let ?u = "cacheCounter ''updates'' ''cacheUpdatesTotal'' ''metrics.cache.update'' IncCacheUpdatesTotal"
  from assms True have st: "steps [?h, ?m, ?u] s = (Return u, t)" by (simp add: initCacheMetrics_def)
  obtain r1 s1 where h: "?h s = (r1, s1)" by (cases "?h s")
  with st obtain x1 where r1: "r1 = Return x1" by (cases r1) auto
  obtain r2 s2 where m: "?m s1 = (r2, s2)" by (cases "?m s1")
  with st h r1 obtain x2 where r2: "r2 = Return x2" by (cases r2) auto
  obtain r3 s3 where u: "?u s2 = (r3, s3)" by (cases "?u s2")
  with st h r1 m r2 obtain x3 where r3: "r3 = Return x3" by (cases r3) auto
  from st h r1 m r2 u r3 have t: "t = s3" by simp
  from cacheCounter_frame [of "''hits''" "''cacheHitsTotal''" "''metrics.cache.hit''" IncCacheHitsTotal s]
    h r1
  have l1: "cacheServiceListeners s1 = cacheServiceListeners s @ [(''metrics.cache.hit'', IncCacheHitsTotal)]"
    by blast
  from cacheCounter_frame [of "''misses''" "''cacheMissesTotal''" "''metrics.cache.miss''" IncCacheMissesTotal s1]
    m r2
  have l2: "cacheServiceListeners s2 = cacheServiceListeners s1 @ [(''metrics.cache.miss'', IncCacheMissesTotal)]"
    by blast
  from cacheCounter_frame [of "''updates''" "''cacheUpdatesTotal''" "''metrics.cache.update''" IncCacheUpdatesTotal s2]
    u r3
  have l3: "cacheServiceListeners s3 = cacheServiceListeners s2 @ [(''metrics.cache.update'', IncCacheUpdatesTotal)]"
    by blast
  from True t l1 l2 l3 show ?thesis by simp
qed

lemma init_binds:
  "eventBusListeners (snd (init s)) =
     (if fst (init s) = Return () \<and> includesMetrics s Logs
      then eventBusListeners s @ [(''metrics.eventBus.event'', CountEvent)]
      else eventBusListeners s) \<and>
   (fst (init s) = Return () \<longrightarrow>
      cacheServiceListeners (snd (init s)) =
        cacheServiceListeners s @
        (if includesMetrics s Cache
         then [(''metrics.cache.hit'', IncCacheHitsTotal), (''metrics.cache.miss'', IncCacheMissesTotal),
               (''metrics.cache.update'', IncCacheUpdatesTotal)]
         else []))"
proof -
  let ?t1 = "afterDefaults s"
  obtain r2 t2 where v: "initN8nVersionMetric ?t1 = (r2, t2)" by (cases "initN8nVersionMetric ?t1")
  with initN8nVersionMetric_frame [of ?t1]
  have t2: "includesMetrics t2 = includesMetrics s" "eventBusListeners t2 = eventBusListeners s"
    "cacheServiceListeners t2 = cacheServiceListeners s"
    by simp_all
  show ?thesis
  proof (cases r2)
    case (Throw e)
    with v t2 show ?thesis by (simp add: init_head)
  next
    case r2: (Return x2)
    obtain r3 t3 where c: "initCacheMetrics t2 = (r3, t3)" by (cases "initCacheMetrics t2")
    with initCacheMetrics_frame [of t2] t2
    have t3: "includesMetrics t3 = includesMetrics s" "eventBusListeners t3 = eventBusListeners s"
      by simp_all
    show ?thesis
    proof (cases r3)
      case (Throw e)
      with v r2 c t3 show ?thesis by (simp add: init_head)
    next
      case r3: (Return x3)
      from initCacheMetrics_listeners [of t2 x3 t3] c r3 t2
      have l3: "cacheServiceListeners t3 =
           cacheServiceListeners s @
           (if includesMetrics s Cache
            then [(''metrics.cache.hit'', IncCacheHitsTotal), (''metrics.cache.miss'', IncCacheMissesTotal),
                  (''metrics.cache.update'', IncCacheUpdatesTotal)]
            else [])"
        by simp
      from init_tail [of t3] obtain t4 where
        t4: "steps [initEventBusMetrics, initApiMetrics, mountMetricsEndpoint] t3 = (Return (), t4)"
        and c4: "cacheServiceListeners t4 = cacheServiceListeners t3"
        and e4: "eventBusListeners t4 =
          (if includesMetrics t3 Logs
           then eventBusListeners t3 @ [(''metrics.eventBus.event'', CountEvent)]
           else eventBusListeners t3)"
        by blast
      have "init s = (Return (), t4)"
        unfolding init_head using v r2 c r3 t4 by simp
      with c4 e4 t3 l3 show ?thesis by simp
    qed
  qed
qed

lemma toCounter_labels: "includesLabels (snd (toCounter ev s)) = includesLabels s"
proof (cases "truthy (getProp (counters s) (eventName ev))")
  case True
  then show ?thesis by (simp add: toCounter_cached)
next
  case miss: False
  show ?thesis
  proof (cases "validateMetricName (metricName (prefix s) (eventName ev))")
    case False
    with miss show ?thesis by (simp add: toCounter_invalid)
  next
    case valid: True
    show ?thesis
    proof (cases "metricName (prefix s) (eventName ev) \<in> set (map fst (registerMetrics s))")
      case True
      with miss valid show ?thesis by (simp add: toCounter_duplicate)
    next
      case False
      with miss valid show ?thesis by (simp add: toCounter_created)
    qed
  qed
qed

lemma onEventBusEvent_labels: "includesLabels (snd (onEventBusEvent ev s)) = includesLabels s"
proof -
  obtain res s1 where tc: "toCounter ev s = (res, s1)" by (cases "toCounter ev s")
  with toCounter_labels [of ev s] have "includesLabels s1 = includesLabels s" by simp
  with tc show ?thesis
    by (simp add: onEventBusEvent_def split: result.splits jsValue.splits)
qed

lemma runCacheListener_labels: "includesLabels (snd (runCacheListener l s)) = includesLabels s"
  by (simp add: runCacheListener_def split: jsValue.splits)

lemma init_labels: "includesLabels (snd (init s)) = includesLabels s"
  unfolding init_def
proof (rule steps_preserve [where P = "\<lambda>t. includesLabels t = includesLabels s"])
  fix a and t :: state
  assume a: "a \<in> set [registerClear, initDefaultMetrics, initN8nVersionMetric, initCacheMetrics,
        initEventBusMetrics, initApiMetrics, mountMetricsEndpoint]"
    and t: "includesLabels t = includesLabels s"
  have "includesLabels (snd (collectDefaultMetrics t)) = includesLabels t"
    unfolding collectDefaultMetrics_def
    by (rule steps_preserve [where P = "\<lambda>u. includesLabels u = includesLabels t"]) auto
  then have "includesLabels (snd (initDefaultMetrics t)) = includesLabels t"
    by (simp add: initDefaultMetrics_def)
  moreover have "includesLabels (snd (registerClear t)) = includesLabels t"
    by (simp add: registerClear_def)
  moreover have "includesLabels (snd (initEventBusMetrics t)) = includesLabels t"
    by (simp add: initEventBusMetrics_def)
  moreover have "includesLabels (snd (initApiMetrics t)) = includesLabels t"
    by (simp add: initApiMetrics_def)
  moreover have "includesLabels (snd (mountMetricsEndpoint t)) = includesLabels t"
    by (simp add: mountMetricsEndpoint_def)
  ultimately show "includesLabels (snd (a t)) = includesLabels s"
    using a t initCacheMetrics_frame [of t] by auto
qed simp

lemma perform_labels: "includesLabels (perform c s) = includesLabels s"
proof -
  have bus: "includesLabels (snd (eventBusEmit topic ev s)) = includesLabels s" for topic ev
    unfolding eventBusEmit_def
    by (rule steps_preserve [where P = "\<lambda>t. includesLabels t = includesLabels s"])
       (auto simp: onEventBusEvent_labels)
  have cache: "includesLabels (snd (cacheServiceEmit topic s)) = includesLabels s" for topic
    unfolding cacheServiceEmit_def
    by (rule steps_preserve [where P = "\<lambda>t. includesLabels t = includesLabels s"])
       (auto simp: runCacheListener_labels)
  show ?thesis
    by (cases c)
       (simp_all add: perform_def bus cache init_labels enableMetric_def disableMetric_def
          disableAllMetrics_eq)
qed

lemma showNat_1: "showNat (Suc 0) = ''1''"
  by (simp add: showNat.simps)

lemma deliveries_keep_gauge:
  assumes "list_all (\<lambda>c. isDelivery c \<or> isToggle c) cs"
    and "consistent p ver s" and "mType m = Gauge" and "m \<in> set (registered s)"
  shows "m \<in> set (registered (performAll cs s))"
  using assms unfolding performAll_def
proof (induction cs arbitrary: s)
  case Nil
  then show ?case by simp
next
  case (Cons c cs)
  from Cons.prems have c: "isDelivery c \<or> isToggle c"
    and cs: "list_all (\<lambda>c. isDelivery c \<or> isToggle c) cs" by simp_all
  have "consistent p ver (perform c s)" by (rule perform_consistent) (rule Cons.prems(2))
  moreover have "m \<in> set (registered (perform c s))"
    by (rule perform_keeps_gauge [OF Cons.prems(2) Cons.prems(3) Cons.prems(4) c])
  ultimately have "m \<in> set (registered (fold perform cs (perform c s)))"
    using Cons.IH [OF cs _ Cons.prems(3)] by blast
  then show ?case by simp
qed

section \<open>Derived names\<close>

lemma replaceFirst_absent: "\<not> occursIn pat s \<Longrightarrow> replaceFirst pat rep s = s"
  by (induction s) auto

lemma replaceFirst_prefix: "startsWith s pat \<Longrightarrow> replaceFirst pat [] s = drop (length pat) s"
  by (cases s) (auto simp: startsWith_def)

lemma replaceFirst_vendor: "startsWith en ''n8n.'' \<Longrightarrow> replaceFirst ''n8n.'' [] en = drop 4 en"
  using replaceFirst_prefix [of en "''n8n.''"] by (simp add: eval_nat_numeral)

lemma replaceDots_sanitize:
  "list_all (\<lambda>c. isLetter c \<or> isDigit c \<or> c = CHR ''_'' \<or> c = CHR ''.'') t \<Longrightarrow>
   replaceDots t = sanitize_spec t"
  by (induction t) (auto simp: replaceDots_def sanitize_spec_def isLetter_def isDigit_def Let_def)

section \<open>The claims\<close>

subsection \<open>Initialising again\<close>

text \<open>
  C1 says that after \<open>init\<close> has been called twice one event of the event bus is
  counted once. The code does otherwise: \<open>init\<close> binds a listener each time it runs
  and releases none, so after two calls two listeners are bound and the one event
  \<open>n8n.audit.workflow.updated\<close> leaves the value 2 in the snapshot.
\<close>

theorem reinit_counts_twice:
  "eventBusListeners (snd (init (snd (init logsService)))) =
     [(''metrics.eventBus.event'', CountEvent), (''metrics.eventBus.event'', CountEvent)] \<and>
   samples (perform (BusEvent workflowUpdated) (snd (init (snd (init logsService))))) =
     [(''n8n_test_version_info'',
       [(''version'', ''v1.2.3''), (''major'', ''1''), (''minor'', ''2''), (''patch'', ''3'')], 1),
      (''n8n_test_audit_workflow_updated_total'', [], 2)]"
  by code_simp

text \<open>
  C4 says that initialising again empties the counter cache. The code does otherwise:
  \<open>init\<close> clears the registry only. The lookup after the second \<open>init\<close> returns the
  counter created before it (reference 1), which the registry no longer holds (it holds
  the new version gauge, reference 2), and the event delivered then is missing from the
  snapshot.
\<close>

theorem reinit_keeps_stale_counter:
  "fst (toCounter workflowUpdated (perform (BusEvent workflowUpdated) (snd (init logsService)))) =
     Return (CounterRef 1) \<and>
   fst (toCounter workflowUpdated
          (snd (init (perform (BusEvent workflowUpdated) (snd (init logsService)))))) =
     Return (CounterRef 1) \<and>
   registerMetrics (snd (init (perform (BusEvent workflowUpdated) (snd (init logsService))))) =
     [(''n8n_test_version_info'', 2)] \<and>
   samples (perform (BusEvent workflowUpdated)
      (snd (init (perform (BusEvent workflowUpdated) (snd (init logsService)))))) =
     [(''n8n_test_version_info'',
       [(''version'', ''v1.2.3''), (''major'', ''1''), (''minor'', ''2''), (''patch'', ''3'')], 1)]"
  by code_simp

subsection \<open>The counter cache\<close>

text \<open>
  C2, as amended. In every state the service can reach no two registered metrics share a
  name. For two events with the same event name, when the lookup for the first returns a
  counter, the lookup for the second returns the same counter and leaves the registry as
  it is.
\<close>

theorem one_counter_per_name:
  "distinct (map fst (registerMetrics (performAll hist (newService pfx ver cats fl)))) \<and>
   (eventName e2 = eventName e1 \<longrightarrow> fst (toCounter e1 s) = Return (CounterRef c) \<longrightarrow>
      fst (toCounter e2 (snd (toCounter e1 s))) = Return (CounterRef c) \<and>
      registerMetrics (snd (toCounter e2 (snd (toCounter e1 s)))) =
        registerMetrics (snd (toCounter e1 s)))"
  using reachable_consistent [of pfx ver hist cats fl] toCounter_again [of e2 e1 s]
  by (simp add: consistent_def)

text \<open>The theorem of C2 at two credentials events that differ in their payload.\<close>

theorem one_counter_per_name_witness:
  "eventName (credEvent (Some ''slack.OAuth2'')) = eventName (credEvent None) \<and>
   fst (toCounter (credEvent None) (snd (init logsService))) = Return (CounterRef 1) \<and>
   fst (toCounter (credEvent (Some ''slack.OAuth2''))
          (snd (toCounter (credEvent None) (snd (init logsService))))) = Return (CounterRef 1) \<and>
   registerMetrics (snd (toCounter (credEvent (Some ''slack.OAuth2''))
          (snd (toCounter (credEvent None) (snd (init logsService)))))) =
     registerMetrics (snd (toCounter (credEvent None) (snd (init logsService))))"
proof -
  have h1: "eventName (credEvent (Some ''slack.OAuth2'')) = eventName (credEvent None)"
    by (simp add: credEvent_def)
  have h2: "fst (toCounter (credEvent None) (snd (init logsService))) = Return (CounterRef 1)"
    by code_simp
  from h1 h2 one_counter_per_name [of "[]" "''n8n_test_''" None "onlyCategory Logs" noLabels
      "credEvent (Some ''slack.OAuth2'')" "credEvent None" "snd (init logsService)" 1]
  show ?thesis by blast
qed

text \<open>
  C2 as stated fails: the cache is keyed by the event name. The event names
  \<open>n8n.queue.job\<close> and \<open>n8n.queue_job\<close> derive the same metric name; the lookup for the
  second does not reuse the counter of the first but tries to register the name again,
  which the registry refuses.
\<close>

theorem same_metric_name_counterexample:
  "metricName ''n8n_test_'' ''n8n.queue.job'' = metricName ''n8n_test_'' ''n8n.queue_job'' \<and>
   fst (toCounter (mkEvent Generic ''n8n.queue.job'') (snd (init logsService))) = Return (CounterRef 1) \<and>
   fst (toCounter (mkEvent Generic ''n8n.queue_job'')
          (snd (toCounter (mkEvent Generic ''n8n.queue.job'') (snd (init logsService))))) =
     Throw (Error ''A metric with the name n8n_test_queue_job_total has already been registered.'')"
  by code_simp

text \<open>
  C3 says that an event name whose derived metric name is invalid is validated once. The
  code does otherwise: the rejection is stored as \<open>null\<close>, and the guard of \<open>toCounter\<close>,
  \<open>!this.counters[eventName]\<close>, holds for \<open>null\<close> as it does for a missing entry. After
  the first lookup of \<open>n8n.node-red.started\<close> the marker is stored and the guard is
  true again, so the next lookup derives and validates the name once more.
\<close>

theorem rejection_marker_not_honoured:
  "validateMetricName (metricName ''n8n_test_'' ''n8n.node-red.started'') = False \<and>
   fst (toCounter (mkEvent Generic ''n8n.node-red.started'') (snd (init logsService))) = Return Null \<and>
   counters (snd (toCounter (mkEvent Generic ''n8n.node-red.started'') (snd (init logsService)))) =
     [(''n8n.node-red.started'', None)] \<and>
   truthy (getProp
     (counters (snd (toCounter (mkEvent Generic ''n8n.node-red.started'') (snd (init logsService)))))
     ''n8n.node-red.started'') = False"
  by code_simp

text \<open>
  C8, as amended. A second call of \<open>toCounter\<close> for an event with the same event name
  returns what the first call returned and leaves the state, the registry included, as
  the first call left it.
\<close>

theorem lookup_idempotent:
  assumes "eventName e2 = eventName e1"
  shows "fst (toCounter e2 (snd (toCounter e1 s))) = fst (toCounter e1 s) \<and>
         snd (toCounter e2 (snd (toCounter e1 s))) = snd (toCounter e1 s)"
  using toCounter_again [OF assms, of s] by simp

text \<open>The theorem of C8 at the event \<open>n8n.audit.workflow.updated\<close>.\<close>

theorem lookup_idempotent_witness:
  "eventName workflowUpdated = eventName workflowUpdated \<and>
   fst (toCounter workflowUpdated (snd (toCounter workflowUpdated (snd (init logsService))))) =
     Return (CounterRef 1) \<and>
   snd (toCounter workflowUpdated (snd (toCounter workflowUpdated (snd (init logsService))))) =
     snd (toCounter workflowUpdated (snd (init logsService)))"
proof -
  have h: "fst (toCounter workflowUpdated (snd (init logsService))) = Return (CounterRef 1)"
    by code_simp
  from lookup_idempotent [of workflowUpdated workflowUpdated "snd (init logsService)"] h
  show ?thesis by simp
qed

text \<open>
  C8 as stated fails: \<open>n8n.workflow.started\<close> and \<open>workflow.started\<close> derive the same
  metric name, and the second call raises the registry's error instead of returning the
  counter of the first.
\<close>

theorem lookup_twice_counterexample:
  "metricName ''n8n_test_'' ''n8n.workflow.started'' = metricName ''n8n_test_'' ''workflow.started'' \<and>
   fst (toCounter (mkEvent Generic ''n8n.workflow.started'') (snd (init logsService))) = Return (CounterRef 1) \<and>
   fst (toCounter (mkEvent Generic ''workflow.started'')
          (snd (toCounter (mkEvent Generic ''n8n.workflow.started'') (snd (init logsService))))) =
     Throw (Error ''A metric with the name n8n_test_workflow_started_total has already been registered.'')"
  by code_simp

subsection \<open>Label and name derivation\<close>

text \<open>
  C5, as amended. For an audit event whose name starts with \<open>n8n.audit.user.credentials\<close>:
  with the \<open>credentialsType\<close> label flag off, \<open>toLabels\<close> returns no label; with the flag
  on it returns exactly the label \<open>credential_type\<close>, whose value is the credential type of
  the payload (\<open>unknown\<close> when absent) with every dot replaced by an underscore. For a
  credential type made of letters, digits, underscores and dots this is the value the
  specification describes.
\<close>

theorem toLabels_credentials_audit:
  assumes "eventType ev = Audit"
    and "startsWith (eventName ev) ''n8n.audit.user.credentials''"
  shows "(\<not> lblCredentialsType fl \<longrightarrow> toLabels fl ev = []) \<and>
         (lblCredentialsType fl \<longrightarrow>
            toLabels fl ev =
              [(''credential_type'',
                map (\<lambda>c. if c = CHR ''.'' then CHR ''_'' else c)
                  (case credentialType (payload ev) of None \<Rightarrow> ''unknown'' | Some t \<Rightarrow> t))]) \<and>
         (lblCredentialsType fl \<longrightarrow>
            (\<forall>t. credentialType (payload ev) = Some t \<longrightarrow>
                 list_all (\<lambda>c. isLetter c \<or> isDigit c \<or> c = CHR ''_'' \<or> c = CHR ''.'') t \<longrightarrow>
                 toLabels fl ev = [(''credential_type'', sanitize_spec t)]))"
  using assms
  by (auto simp: toLabels_def orUnknown_def replaceDots_def[symmetric] replaceDots_sanitize
      split: option.splits)

text \<open>The theorem of C5 at the credential type \<open>slack.OAuth2\<close>.\<close>

theorem toLabels_credentials_audit_witness:
  "eventType (credEvent (Some ''slack.OAuth2'')) = Audit \<and>
   startsWith (eventName (credEvent (Some ''slack.OAuth2''))) ''n8n.audit.user.credentials'' \<and>
   toLabels (noLabels\<lparr>lblCredentialsType := True\<rparr>) (credEvent (Some ''slack.OAuth2'')) =
     [(''credential_type'', ''slack_OAuth2'')] \<and>
   toLabels noLabels (credEvent (Some ''slack.OAuth2'')) = []"
  using toLabels_credentials_audit [of "credEvent (Some ''slack.OAuth2'')" "noLabels\<lparr>lblCredentialsType := True\<rparr>"]
        toLabels_credentials_audit [of "credEvent (Some ''slack.OAuth2'')" noLabels]
  by (simp add: credEvent_def noLabels_def startsWith_def)

text \<open>
  C5 as stated fails: the credential type \<open>my-cred\<close> keeps its hyphen, where the
  specification's sanitizing gives \<open>my_cred\<close>.
\<close>

theorem toLabels_not_sanitized_counterexample:
  "toLabels (noLabels\<lparr>lblCredentialsType := True\<rparr>) (credEvent (Some ''my-cred'')) =
     [(''credential_type'', ''my-cred'')] \<and>
   sanitize_spec ''my-cred'' = ''my_cred'' \<and>
   toLabels (noLabels\<lparr>lblCredentialsType := True\<rparr>) (credEvent (Some ''my-cred'')) \<noteq>
     [(''credential_type'', sanitize_spec ''my-cred'')]"
  by (simp add: toLabels_def credEvent_def noLabels_def startsWith_def orUnknown_def
      replaceDots_def sanitize_spec_def isLetter_def isDigit_def)

text \<open>
  C6, as amended. \<open>toCounter\<close> removes the first occurrence of \<open>n8n.\<close> from the event
  name, wherever it stands. For every event name that starts with \<open>n8n.\<close> or does not
  contain it, the derived metric name is the one the specification describes: the vendor
  prefix stripped if present, the dots replaced by underscores, the configured prefix in
  front and \<open>_total\<close> behind. The event name \<open>n8n.audit.workflow.updated\<close> with the prefix
  \<open>n8n_test_\<close> gives \<open>n8n_test_audit_workflow_updated_total\<close>.
\<close>

theorem metricName_derivation:
  "(startsWith en ''n8n.'' \<or> \<not> occursIn ''n8n.'' en \<longrightarrow>
      metricName pfx en = deriveName_spec pfx en) \<and>
   metricName ''n8n_test_'' ''n8n.audit.workflow.updated'' = ''n8n_test_audit_workflow_updated_total''"
proof
  show "startsWith en ''n8n.'' \<or> \<not> occursIn ''n8n.'' en \<longrightarrow> metricName pfx en = deriveName_spec pfx en"
  proof
    assume "startsWith en ''n8n.'' \<or> \<not> occursIn ''n8n.'' en"
    then show "metricName pfx en = deriveName_spec pfx en"
    proof
      assume h: "startsWith en ''n8n.''"
      from replaceFirst_vendor [OF h] h show ?thesis
        by (simp add: metricName_def deriveName_spec_def)
    next
      assume h: "\<not> occursIn ''n8n.'' en"
      then have "\<not> startsWith en ''n8n.''"
        by (cases en) (auto simp: startsWith_def)
      with replaceFirst_absent [OF h] show ?thesis
        by (simp add: metricName_def deriveName_spec_def)
    qed
  qed
next
  show "metricName ''n8n_test_'' ''n8n.audit.workflow.updated'' = ''n8n_test_audit_workflow_updated_total''"
    by (simp add: metricName_def replaceDots_def)
qed

text \<open>The theorem of C6 at the event name \<open>n8n.node.finished\<close>.\<close>

theorem metricName_derivation_witness:
  "startsWith ''n8n.node.finished'' ''n8n.'' \<and>
   metricName ''n8n_'' ''n8n.node.finished'' = ''n8n_node_finished_total'' \<and>
   deriveName_spec ''n8n_'' ''n8n.node.finished'' = ''n8n_node_finished_total''"
  using metricName_derivation [of "''n8n.node.finished''" "''n8n_''"]
  by (simp add: startsWith_def deriveName_spec_def replaceDots_def)

text \<open>
  C6 as stated fails: in \<open>app.n8n.started\<close> the token \<open>n8n.\<close> is no prefix, yet
  \<open>toCounter\<close> removes it.
\<close>

theorem metricName_not_prefix_counterexample:
  "metricName ''n8n_test_'' ''app.n8n.started'' = ''n8n_test_app_started_total'' \<and>
   deriveName_spec ''n8n_test_'' ''app.n8n.started'' = ''n8n_test_app_n8n_started_total'' \<and>
   metricName ''n8n_test_'' ''app.n8n.started'' \<noteq> deriveName_spec ''n8n_test_'' ''app.n8n.started''"
  by (simp add: metricName_def deriveName_spec_def replaceDots_def startsWith_def)

subsection \<open>Category and label flags\<close>




text \<open>
  C9. With the cache category disabled when \<open>init\<close> is called, no metric named after the
  cache hits, misses or updates counter is among the registered metrics (the metrics the
  snapshot prints), whatever cache events follow. With the category enabled and the prefix
  \<open>n8n_test_\<close>, \<open>init\<close> returns and the snapshot holds the lines
  \<open>n8n_test_cache_hits_total 0\<close>, \<open>n8n_test_cache_misses_total 0\<close> and
  \<open>n8n_test_cache_updates_total 0\<close> before any cache event.
\<close>

theorem cache_category_gating:
  "(\<not> includesMetrics s Cache \<longrightarrow> list_all isCacheEvent cs \<longrightarrow>
      list_all
        (\<lambda>m. mName m \<noteq> prefix s @ ''cache_hits_total'' \<and>
             mName m \<noteq> prefix s @ ''cache_misses_total'' \<and>
             mName m \<noteq> prefix s @ ''cache_updates_total'')
        (registered (performAll cs (snd (init s))))) \<and>
   (includesMetrics s Cache \<longrightarrow> prefix s = ''n8n_test_'' \<longrightarrow>
      fst (init s) = Return () \<and>
      ''n8n_test_cache_hits_total 0'' \<in> set (metricsText (snd (init s))) \<and>
      ''n8n_test_cache_misses_total 0'' \<in> set (metricsText (snd (init s))) \<and>
      ''n8n_test_cache_updates_total 0'' \<in> set (metricsText (snd (init s))))"
proof -
  have part1: "list_all
        (\<lambda>m. mName m \<noteq> prefix s @ ''cache_hits_total'' \<and>
             mName m \<noteq> prefix s @ ''cache_misses_total'' \<and>
             mName m \<noteq> prefix s @ ''cache_updates_total'')
        (registered (performAll cs (snd (init s))))"
    if off: "\<not> includesMetrics s Cache" and cs: "list_all isCacheEvent cs"
  proof -
  have "set (map mName (registered (performAll cs (snd (init s))))) \<subseteq>
          set defaultMetricNames \<union> {prefix s @ ''version_info''}"
    using cache_events_keep_names [OF cs, of "snd (init s)"] init_without_cache [OF off] by simp
  then have names: "mName m \<in> set defaultMetricNames \<union> {prefix s @ ''version_info''}"
    if "m \<in> set (registered (performAll cs (snd (init s))))" for m
    using that by auto
  have "mName m \<noteq> prefix s @ ''cache_hits_total'' \<and>
        mName m \<noteq> prefix s @ ''cache_misses_total'' \<and>
        mName m \<noteq> prefix s @ ''cache_updates_total''"
    if "m \<in> set (registered (performAll cs (snd (init s))))" for m
    using names [OF that] default_names_no_cache [of "prefix s"] by auto
  then show ?thesis
    unfolding list_all_iff by blast
  qed
  have part2: "fst (init s) = Return () \<and>
      ''n8n_test_cache_hits_total 0'' \<in> set (metricsText (snd (init s))) \<and>
      ''n8n_test_cache_misses_total 0'' \<in> set (metricsText (snd (init s))) \<and>
      ''n8n_test_cache_updates_total 0'' \<in> set (metricsText (snd (init s)))"
    if on: "includesMetrics s Cache" and pfx: "prefix s = ''n8n_test_''"
  proof -
  let ?t1 = "afterDefaults s"
  obtain t2 where t2: "initN8nVersionMetric ?t1 = (Return (), t2)"
    and reg2: "set (map fst (registerMetrics t2)) \<subseteq>
                 set defaultMetricNames \<union> {''n8n_test_version_info''}"
    and pfx2: "prefix t2 = ''n8n_test_''" and on2: "includesMetrics t2 Cache"
  proof (cases "n8nVersion s")
    case None
    have ok: "initN8nVersionMetric ?t1 = (Return (), ?t1)"
      using None by (simp add: initN8nVersionMetric_def)
    have r: "set (map fst (registerMetrics ?t1)) \<subseteq>
               set defaultMetricNames \<union> {''n8n_test_version_info''}"
      by auto
    show ?thesis by (rule that [OF ok r]) (use on pfx in simp_all)
  next
    case (Some v)
    let ?u = "?t1\<lparr>heap := heap ?t1 @ [versionGaugeObject (prefix ?t1) v],
         registerMetrics := registerMetrics ?t1 @ [(prefix ?t1 @ ''version_info'', length (heap ?t1))]\<rparr>"
    have ok: "initN8nVersionMetric ?t1 = (Return (), ?u)"
      by (rule initN8nVersionMetric_ok)
         (use Some pfx valid_test_names default_names_test_version in simp_all)
    have r: "set (map fst (registerMetrics ?u)) \<subseteq>
               set defaultMetricNames \<union> {''n8n_test_version_info''}"
      using pfx by auto
    show ?thesis by (rule that [OF ok r]) (use on pfx in simp_all)
  qed
  have fresh: "''n8n_test_cache_hits_total'' \<notin> set (map fst (registerMetrics t2))"
    "''n8n_test_cache_misses_total'' \<notin> set (map fst (registerMetrics t2))"
    "''n8n_test_cache_updates_total'' \<notin> set (map fst (registerMetrics t2))"
    using reg2 default_names_no_cache [of "''n8n_test_''"] by auto
  obtain t3 where t3: "initCacheMetrics t2 = (Return (), t3)"
    and heap3: "heap t3 = heap t2 @
           [cacheCounterObject ''n8n_test_'' ''hits'', cacheCounterObject ''n8n_test_'' ''misses'',
            cacheCounterObject ''n8n_test_'' ''updates'']"
    and reg3: "registerMetrics t3 = registerMetrics t2 @
           [(''n8n_test_cache_hits_total'', length (heap t2)),
            (''n8n_test_cache_misses_total'', Suc (length (heap t2))),
            (''n8n_test_cache_updates_total'', Suc (Suc (length (heap t2))))]"
    using initCacheMetrics_ok [of t2] on2 fresh pfx2 by (simp add: valid_test_names)
  obtain t4 where t4: "steps [initEventBusMetrics, initApiMetrics, mountMetricsEndpoint] t3 = (Return (), t4)"
    and heap4: "heap t4 = heap t3" and reg4: "registerMetrics t4 = registerMetrics t3"
    using init_tail [of t3] by blast
  have init: "init s = (Return (), t4)"
    unfolding init_head using t2 t3 t4 by simp
  have r: "registered t4 = registered t3"
    by (rule registered_cong [OF heap4 reg4])
  have hits: "cacheCounterObject ''n8n_test_'' ''hits'' \<in> set (registered t3)"
    unfolding registered_iff reg3 heap3
    by (rule exI [of _ "''n8n_test_cache_hits_total''"], rule exI [of _ "length (heap t2)"]) simp
  have misses: "cacheCounterObject ''n8n_test_'' ''misses'' \<in> set (registered t3)"
    unfolding registered_iff reg3 heap3
    by (rule exI [of _ "''n8n_test_cache_misses_total''"], rule exI [of _ "Suc (length (heap t2))"])
       (simp add: nth_append)
  have updates: "cacheCounterObject ''n8n_test_'' ''updates'' \<in> set (registered t3)"
    unfolding registered_iff reg3 heap3
    by (rule exI [of _ "''n8n_test_cache_updates_total''"], rule exI [of _ "Suc (Suc (length (heap t2)))"])
       (simp add: nth_append)
  show ?thesis
    using metricsText_line [OF hits, of "[]" 0] metricsText_line [OF misses, of "[]" 0]
      metricsText_line [OF updates, of "[]" 0]
    by (simp add: init metricsText_def r cacheCounterObject_def formatLabels_def showNat_0)
  qed
  from part1 part2 show ?thesis by blast
qed

text \<open>
  The theorem of C9 at the test configuration: three cache events with the category
  disabled, and the category enabled.
\<close>

theorem cache_category_gating_witness:
  "\<not> includesMetrics logsService Cache \<and>
   list_all isCacheEvent [CacheHit, CacheMiss, CacheHit] \<and>
   list_all
     (\<lambda>m. mName m \<noteq> ''n8n_test_cache_hits_total'' \<and>
          mName m \<noteq> ''n8n_test_cache_misses_total'' \<and>
          mName m \<noteq> ''n8n_test_cache_updates_total'')
     (registered (performAll [CacheHit, CacheMiss, CacheHit] (snd (init logsService)))) \<and>
   includesMetrics (enableMetric Cache logsService) Cache \<and>
   prefix (enableMetric Cache logsService) = ''n8n_test_'' \<and>
   ''n8n_test_cache_hits_total 0'' \<in> set (metricsText (snd (init (enableMetric Cache logsService))))"
  using cache_category_gating [of logsService "[CacheHit, CacheMiss, CacheHit]"]
    cache_category_gating [of "enableMetric Cache logsService" "[]"]
  by (simp add: logsService_def newService_def onlyCategory_def enableMetric_def isCacheEvent_def)

subsection \<open>The version metric\<close>

text \<open>
  C10, as amended. When the version parses, the prefix followed by \<open>version_info\<close> is a
  valid metric name and, if the default category is enabled at the call, that name is none
  of the names of the default metrics, \<open>init\<close> returns in every state the service can
  reach, whatever the api, cache and logs flags are, and registers the version gauge: its
  sample, with the labels \<open>version\<close>, \<open>major\<close>, \<open>minor\<close> and \<open>patch\<close> and the value 1,
  is in the snapshot after \<open>init\<close> and after every sequence of events and toggles that
  follows.
\<close>

theorem version_metric_registered:
  assumes "validateMetricName (pfx @ ''version_info'')"
    and "includesMetrics (performAll hist (newService pfx (Some v) cats fl)) Default \<longrightarrow>
         pfx @ ''version_info'' \<notin> set defaultMetricNames"
    and "list_all (\<lambda>c. isDelivery c \<or> isToggle c) cs"
  shows "fst (init (performAll hist (newService pfx (Some v) cats fl))) = Return () \<and>
         (pfx @ ''version_info'',
          [(''version'', ''v'' @ version v), (''major'', showNat (major v)),
           (''minor'', showNat (minor v)), (''patch'', showNat (patch v))], 1)
           \<in> set (samples (performAll cs (snd (init (performAll hist (newService pfx (Some v) cats fl)))))) \<and>
         pfx @ ''version_info'' @
           formatLabels [(''version'', ''v'' @ version v), (''major'', showNat (major v)),
             (''minor'', showNat (minor v)), (''patch'', showNat (patch v))] @ '' 1''
           \<in> set (metricsText (performAll cs (snd (init (performAll hist (newService pfx (Some v) cats fl))))))"
proof -
  let ?s = "performAll hist (newService pfx (Some v) cats fl)"
  let ?G = "versionGaugeObject pfx v"
  have s: "consistent pfx (Some v) ?s" by (rule reachable_consistent)
  then have pv: "prefix ?s = pfx" "n8nVersion ?s = Some v" by (simp_all add: consistent_def)
  from init_registers_version [of ?s v] pv assms(1,2)
  have ret: "fst (init ?s) = Return ()" and g: "?G \<in> set (registered (snd (init ?s)))" by simp_all
  have ty: "mType ?G = Gauge" by (simp add: versionGaugeObject_def)
  have reg: "?G \<in> set (registered (performAll cs (snd (init ?s))))"
    by (rule deliveries_keep_gauge [OF assms(3) init_consistent [OF s] ty g])
  have hm: "(versionLabels v, 1) \<in> set (hashMap ?G)" by (simp add: versionGaugeObject_def)
  have nc: "mType ?G \<noteq> Collected" by (simp add: versionGaugeObject_def)
  from samples_member [OF reg hm] metricsText_line [OF reg nc hm] ret
  show ?thesis
    by (simp add: versionGaugeObject_def versionLabels_def showNat_1)
qed

text \<open>
  The theorem of C10 at the test configuration, with \<open>disableAllMetrics\<close>, an earlier
  \<open>init\<close> and the default category enabled before the call, and two events and
  \<open>disableAllMetrics\<close> after it.
\<close>

theorem version_metric_registered_witness:
  "validateMetricName (''n8n_test_'' @ ''version_info'') \<and>
   ''n8n_test_'' @ ''version_info'' \<notin> set defaultMetricNames \<and>
   list_all (\<lambda>c. isDelivery c \<or> isToggle c) [BusEvent workflowUpdated, DisableAll, CacheHit] \<and>
   (''n8n_test_version_info'',
     [(''version'', ''v1.2.3''), (''major'', ''1''), (''minor'', ''2''), (''patch'', ''3'')], 1)
     \<in> set (samples (performAll [BusEvent workflowUpdated, DisableAll, CacheHit]
                (snd (init (performAll [DisableAll, Init, Enable Default, Enable Cache]
                   (newService ''n8n_test_'' (Some testVersion) (onlyCategory Logs) noLabels))))))"
proof -
  have v: "validateMetricName (''n8n_test_'' @ ''version_info'')"
    by (simp add: valid_test_names)
  have d: "''n8n_test_'' @ ''version_info'' \<notin> set defaultMetricNames"
    using default_names_test_version by simp
  have l: "list_all (\<lambda>c. isDelivery c \<or> isToggle c) [BusEvent workflowUpdated, DisableAll, CacheHit]"
    by (simp add: isDelivery_def isToggle_def)
  have n: "showNat (Suc 0) = ''1''" "showNat 2 = ''2''" "showNat 3 = ''3''"
    by (simp_all add: showNat.simps)
  from version_metric_registered [of "''n8n_test_''" "[DisableAll, Init, Enable Default, Enable Cache]"
      testVersion "onlyCategory Logs" noLabels "[BusEvent workflowUpdated, DisableAll, CacheHit]"] v d l
  show ?thesis by (simp add: testVersion_def n)
qed

text \<open>
  C10 as stated fails: the version parses, but with the prefix \<open>nodejs_\<close> and the default
  category enabled the default metrics, registered first, hold the name
  \<open>nodejs_version_info\<close>; the constructor of the gauge raises, \<open>init\<close> stops there and
  the snapshot has no version sample. With the default category disabled the same prefix
  registers the gauge: the outcome depends on a category flag. With the prefix \<open>n8n-\<close>
  the name \<open>n8n-version_info\<close> is no valid metric name, and the constructor raises as well.
\<close>

theorem default_name_clash_counterexample:
  "n8nVersion (newService ''nodejs_'' (Some testVersion) (onlyCategory Default) noLabels) = Some testVersion \<and>
   validateMetricName (''nodejs_'' @ ''version_info'') \<and>
   fst (init (newService ''nodejs_'' (Some testVersion) (onlyCategory Default) noLabels)) =
     Throw (Error ''A metric with the name nodejs_version_info has already been registered.'') \<and>
   samples (snd (init (newService ''nodejs_'' (Some testVersion) (onlyCategory Default) noLabels))) = [] \<and>
   fst (init (newService ''nodejs_'' (Some testVersion) (onlyCategory Logs) noLabels)) = Return () \<and>
   samples (snd (init (newService ''nodejs_'' (Some testVersion) (onlyCategory Logs) noLabels))) =
     [(''nodejs_version_info'',
       [(''version'', ''v1.2.3''), (''major'', ''1''), (''minor'', ''2''), (''patch'', ''3'')], 1)] \<and>
   fst (init (newService ''n8n-'' (Some testVersion) (onlyCategory Logs) noLabels)) =
     Throw (Error ''Invalid metric name'') \<and>
   samples (snd (init (newService ''n8n-'' (Some testVersion) (onlyCategory Logs) noLabels))) = []"
  by code_simp

end
